theory Spec2Isabelle
  imports Main "HOL-Library.Word"
begin

unbundle bit_operations_syntax

section \<open>The Simple Fragmentation Protocol of libcsp (src/src/csp_sfp.c)\<close>

text \<open>
  The development follows \<^verbatim>\<open>csp_sfp.c\<close> function by function. Machine integers are
  words of the width the C type has (\<^verbatim>\<open>uint8_t\<close>, \<^verbatim>\<open>uint16_t\<close>, \<^verbatim>\<open>uint32_t\<close>, and
  \<^verbatim>\<open>size_t\<close> taken as 64 bit), so every conversion and every wrap-around of the
  source is a conversion or a wrap-around here.
\<close>

subsection \<open>Types of the build\<close>

type_synonym uint8_t = "8 word"
type_synonym uint16_t = "16 word"
type_synonym uint32_t = "32 word"
type_synonym size_t = "64 word"

text \<open>
  The return codes of \<^verbatim>\<open>csp_error.h\<close> that \<^verbatim>\<open>csp_sfp.c\<close> uses.
\<close>

datatype csp_err = CSP_ERR_NONE | CSP_ERR_NOMEM | CSP_ERR_INVAL | CSP_ERR_TIMEDOUT | CSP_ERR_SFP

text \<open>
  Three things the file takes from its build and that are declared outside it: the
  capacity \<^verbatim>\<open>CSP_BUFFER_SIZE\<close> of a packet's data array, the bit \<^verbatim>\<open>CSP_FFRAG\<close> of the
  identifier flags, and the byte order of the host, on which \<^verbatim>\<open>be32toh\<close> and \<^verbatim>\<open>htobe32\<close>
  depend. They are parameters of the model.
\<close>

record csp_build =
  CSP_BUFFER_SIZE :: nat
  CSP_FFRAG :: uint8_t
  little_endian :: bool

text \<open>
  A packet, as far as \<^verbatim>\<open>csp_sfp.c\<close> looks at it: \<^verbatim>\<open>packet->id.flags\<close>,
  \<^verbatim>\<open>packet->length\<close> and the array \<^verbatim>\<open>packet->data\<close>.
\<close>

record csp_packet_t =
  id_flags :: uint8_t
  length_pkt :: uint16_t
  data_pkt :: "uint8_t list"

text \<open>
  \<^verbatim>\<open>sfp_header_t\<close>, a packed struct: \<^verbatim>\<open>offset\<close> in bytes 0 to 3, \<^verbatim>\<open>totalsize\<close> in
  bytes 4 to 7, so \<^verbatim>\<open>sizeof(sfp_header_t)\<close> is 8.
\<close>

record sfp_header_t =
  sfp_offset :: uint32_t
  sfp_totalsize :: uint32_t

definition sizeof_sfp_header_t :: nat where
  "sizeof_sfp_header_t = 8"

subsection \<open>Memory and byte order\<close>

text \<open>
  Reading \<open>n\<close> bytes at index \<open>i\<close> of an array and overwriting the bytes at index \<open>i\<close>.
  Both agree with C as long as the range lies inside the array. An access beyond it is
  undefined in C; every theorem below that depends on such an access carries a hypothesis
  that keeps it inside: the length of a packet does not exceed its data array.
\<close>

definition load_bytes :: "uint8_t list \<Rightarrow> nat \<Rightarrow> nat \<Rightarrow> uint8_t list" where
  "load_bytes d i n = take n (drop i d)"

definition store_bytes :: "uint8_t list \<Rightarrow> nat \<Rightarrow> uint8_t list \<Rightarrow> uint8_t list" where
  "store_bytes d i bs = take i d @ bs @ drop (i + length bs) d"

text \<open>The four bytes of a 32-bit value, most significant first, and back.\<close>

definition be32_bytes :: "uint32_t \<Rightarrow> uint8_t list" where
  "be32_bytes w = [ucast (drop_bit 24 w), ucast (drop_bit 16 w), ucast (drop_bit 8 w), ucast w]"

definition be32_value :: "uint8_t list \<Rightarrow> uint32_t" where
  "be32_value bs = foldl (\<lambda>a b. push_bit 8 a OR ucast b) 0 bs"

text \<open>
  A \<^verbatim>\<open>uint32_t\<close> in memory, in the byte order of the host: what a load through a
  \<^verbatim>\<open>uint32_t\<close> lvalue reads and what a store writes.
\<close>

definition host_value :: "bool \<Rightarrow> uint8_t list \<Rightarrow> uint32_t" where
  "host_value le bs = (if le then be32_value (rev bs) else be32_value bs)"

definition host_bytes :: "bool \<Rightarrow> uint32_t \<Rightarrow> uint8_t list" where
  "host_bytes le w = (if le then rev (be32_bytes w) else be32_bytes w)"

definition bswap32 :: "uint32_t \<Rightarrow> uint32_t" where
  "bswap32 w = be32_value (rev (be32_bytes w))"

definition be32toh :: "bool \<Rightarrow> uint32_t \<Rightarrow> uint32_t" where
  "be32toh le w = (if le then bswap32 w else w)"

definition htobe32 :: "bool \<Rightarrow> uint32_t \<Rightarrow> uint32_t" where
  "htobe32 le w = (if le then bswap32 w else w)"

subsection \<open>The trailer: \<^verbatim>\<open>csp_sfp_header_add\<close> and \<^verbatim>\<open>csp_sfp_header_remove\<close>\<close>

text \<open>
  \<^verbatim>\<open>csp_sfp_header_add\<close> returns the address \<^verbatim>\<open>&packet->data[packet->length]\<close>, here the
  index into the data array, and adds 8 to the 16-bit \<^verbatim>\<open>packet->length\<close>.
\<close>

definition csp_sfp_header_add :: "csp_packet_t \<Rightarrow> nat \<times> csp_packet_t" where
  "csp_sfp_header_add packet =
     (unat (length_pkt packet),
      packet\<lparr>length_pkt := length_pkt packet + of_nat sizeof_sfp_header_t\<rparr>)"

text \<open>
  \<^verbatim>\<open>csp_sfp_header_remove\<close> returns \<^verbatim>\<open>NULL\<close> (\<open>None\<close>) or the header, and changes the
  packet it is given: the second component is the packet after the call. The two
  assignments \<^verbatim>\<open>header->offset = be32toh(header->offset)\<close> and
  \<^verbatim>\<open>header->totalsize = be32toh(header->totalsize)\<close> load a host-order value from the data
  array, convert it, and store it back in place.
\<close>

definition csp_sfp_header_remove ::
  "csp_build \<Rightarrow> csp_packet_t \<Rightarrow> sfp_header_t option \<times> csp_packet_t" where
  "csp_sfp_header_remove b packet =
     (if id_flags packet AND CSP_FFRAG b = 0 then (None, packet)
      else if unat (length_pkt packet) < sizeof_sfp_header_t then (None, packet)
      else
        let header = unat (length_pkt packet) - sizeof_sfp_header_t;
            packet1 = packet\<lparr>length_pkt := length_pkt packet - of_nat sizeof_sfp_header_t\<rparr>;
            le = little_endian b;
            off = be32toh le (host_value le (load_bytes (data_pkt packet1) header 4));
            packet2 = packet1\<lparr>data_pkt := store_bytes (data_pkt packet1) header (host_bytes le off)\<rparr>;
            tot = be32toh le (host_value le (load_bytes (data_pkt packet2) (header + 4) 4));
            packet3 = packet2\<lparr>data_pkt := store_bytes (data_pkt packet2) (header + 4) (host_bytes le tot)\<rparr>
        in if off > tot then (None, packet3)
           else (Some \<lparr>sfp_offset = off, sfp_totalsize = tot\<rparr>, packet3))"

subsection \<open>What surrounds the protocol\<close>

text \<open>
  The user's capabilities \<^verbatim>\<open>csp_sfp_read_t\<close> and \<^verbatim>\<open>csp_sfp_write_t\<close> of
  \<^verbatim>\<open>csp_sfp.h\<close>. The state behind \<^verbatim>\<open>user->data\<close> is a value of type \<open>'u\<close> that each
  call may change. \<^verbatim>\<open>read(user_data, data, offset, size)\<close> is given the data array of the
  packet and returns the count, the array as it left it, and the new user state;
  \<^verbatim>\<open>write(user_data, data, offset, size, totalsize)\<close> returns the count and the new user
  state.
\<close>

type_synonym 'u csp_sfp_read_t =
  "'u \<Rightarrow> uint8_t list \<Rightarrow> uint32_t \<Rightarrow> uint16_t \<Rightarrow> uint16_t \<times> uint8_t list \<times> 'u"

type_synonym 'u csp_sfp_write_t =
  "'u \<Rightarrow> uint8_t list \<Rightarrow> uint32_t \<Rightarrow> uint16_t \<Rightarrow> uint32_t \<Rightarrow> uint16_t \<times> 'u"

text \<open>
  The buffer pool of \<^verbatim>\<open>csp_buffer.h\<close>, with a state of type \<open>'b\<close> of its own:
  \<^verbatim>\<open>csp_buffer_get\<close> returns a packet or \<^verbatim>\<open>NULL\<close>, \<^verbatim>\<open>csp_buffer_free\<close> gives one back.
\<close>

record 'b csp_buffer =
  csp_buffer_get :: "'b \<Rightarrow> csp_packet_t option \<times> 'b"
  csp_buffer_free :: "csp_packet_t \<Rightarrow> 'b \<Rightarrow> 'b"

text \<open>
  Everything a call can change: the flags \<^verbatim>\<open>conn->idout.flags\<close>, the packets handed to
  \<^verbatim>\<open>csp_send\<close> so far (oldest first), the packets \<^verbatim>\<open>csp_read\<close> has still to deliver, the
  state behind \<^verbatim>\<open>user->data\<close>, the buffer pool, and the cell \<^verbatim>\<open>*return_datasize\<close>.
\<close>

record ('u, 'b) csp_world =
  idout_flags :: uint8_t
  tx :: "csp_packet_t list"
  rx :: "csp_packet_t list"
  user_data :: 'u
  pool :: 'b
  return_datasize :: uint32_t

text \<open>
  Modelled from the spec: \<^verbatim>\<open>csp_send\<close> and \<^verbatim>\<open>csp_read\<close> are defined in \<^verbatim>\<open>csp_io.c\<close>, which
  is not part of the sources at hand. The spec has the channel take each fragment in the
  order sent, the fragment flag being carried in the message's own flags, which the engine
  sets on the connection: \<open>csp_send\<close> stamps the packet with the connection's outgoing
  flags and appends it to the channel. \<open>csp_read\<close> returns the next message, or nothing
  when none arrives within the timeout.
\<close>

definition csp_send :: "csp_packet_t \<Rightarrow> ('u, 'b) csp_world \<Rightarrow> ('u, 'b) csp_world" where
  "csp_send packet w = w\<lparr>tx := tx w @ [packet\<lparr>id_flags := idout_flags w\<rparr>]\<rparr>"

definition csp_read ::
  "uint32_t \<Rightarrow> ('u, 'b) csp_world \<Rightarrow> csp_packet_t option \<times> ('u, 'b) csp_world" where
  "csp_read timeout w =
     (case rx w of [] \<Rightarrow> (None, w) | packet # rest \<Rightarrow> (Some packet, w\<lparr>rx := rest\<rparr>))"

text \<open>
  \<^verbatim>\<open>CSP_BUFFER_SIZE - sizeof(sfp_header_t)\<close> and \<^verbatim>\<open>sizeof(packet->data) - sizeof(*sfp_header)\<close>:
  a subtraction in \<^verbatim>\<open>size_t\<close>, which wraps around when the capacity is below 8.
\<close>

definition sfp_room :: "csp_build \<Rightarrow> size_t" where
  "sfp_room b = of_nat (CSP_BUFFER_SIZE b) - of_nat sizeof_sfp_header_t"

subsection \<open>\<^verbatim>\<open>csp_sfp_send\<close>\<close>

text \<open>
  The block "Calculate sending size": \<^verbatim>\<open>uint16_t size = totalsize - count\<close> keeps the low
  16 bits of the 32-bit difference, and \<^verbatim>\<open>if (size > mtu) size = mtu\<close> compares in 32 bits
  and assigns the low 16 bits of \<^verbatim>\<open>mtu\<close>.
\<close>

definition sending_size :: "uint32_t \<Rightarrow> uint32_t \<Rightarrow> uint32_t \<Rightarrow> uint16_t" where
  "sending_size totalsize mtu count =
     (let size0 = (ucast (totalsize - count) :: uint16_t)
      in if (ucast size0 :: uint32_t) > mtu then (ucast mtu :: uint16_t) else size0)"

text \<open>
  One pass through the body of the \<^verbatim>\<open>while\<close> loop of \<^verbatim>\<open>csp_sfp_send\<close>. \<open>Inl\<close> is a
  \<^verbatim>\<open>return\<close> from inside the loop, \<open>Inr\<close> the new value of \<^verbatim>\<open>count\<close> with which the loop
  goes on.
\<close>

definition send_fragment ::
  "csp_build \<Rightarrow> 'b csp_buffer \<Rightarrow> 'u csp_sfp_read_t \<Rightarrow> uint32_t \<Rightarrow> uint32_t \<Rightarrow> uint32_t \<Rightarrow>
   ('u, 'b) csp_world \<Rightarrow> (csp_err \<times> ('u, 'b) csp_world) + (uint32_t \<times> ('u, 'b) csp_world)" where
  "send_fragment b buf user_read totalsize mtu count w =
     (case csp_buffer_get buf (pool w) of
        (None, pool1) \<Rightarrow> Inl (CSP_ERR_NOMEM, w\<lparr>pool := pool1\<rparr>)
      | (Some packet, pool1) \<Rightarrow>
          let w1 = w\<lparr>pool := pool1\<rparr>;
              size1 = sending_size totalsize mtu count;
              (n, filled, user1) = user_read (user_data w1) (data_pkt packet) count size1;
              packet1 = packet\<lparr>data_pkt := filled\<rparr>;
              w2 = w1\<lparr>user_data := user1\<rparr>
          in if size1 \<noteq> n
             then Inl (CSP_ERR_SFP, w2\<lparr>pool := csp_buffer_free buf packet1 (pool w2)\<rparr>)
             else
               let packet2 = packet1\<lparr>length_pkt := size1\<rparr>;
                   w3 = w2\<lparr>idout_flags := idout_flags w2 OR CSP_FFRAG b\<rparr>;
                   (sfp_header, packet3) = csp_sfp_header_add packet2;
                   le = little_endian b;
                   packet4 = packet3\<lparr>data_pkt :=
                     store_bytes (data_pkt packet3) (sfp_header + 4) (host_bytes le (htobe32 le totalsize))\<rparr>;
                   packet5 = packet4\<lparr>data_pkt :=
                     store_bytes (data_pkt packet4) sfp_header (host_bytes le (htobe32 le count))\<rparr>;
                   w4 = csp_send packet5 w3
               in Inr (count + ucast size1, w4))"

text \<open>
  The loop itself. Nothing bounds the number of passes in general, so the loop is a
  partial function: \<open>None\<close> is a loop that never returns.
\<close>

partial_function (option) send_loop ::
  "csp_build \<Rightarrow> 'b csp_buffer \<Rightarrow> 'u csp_sfp_read_t \<Rightarrow> uint32_t \<Rightarrow> uint32_t \<Rightarrow> uint32_t \<Rightarrow>
   ('u, 'b) csp_world \<Rightarrow> (csp_err \<times> ('u, 'b) csp_world) option" where
  "send_loop b buf user_read totalsize mtu count w =
     (if count < totalsize
      then (case send_fragment b buf user_read totalsize mtu count w of
              Inl r \<Rightarrow> Some r
            | Inr (count1, w1) \<Rightarrow> send_loop b buf user_read totalsize mtu count1 w1)
      else Some (CSP_ERR_NONE, w))"

declare send_loop.simps [code]

definition csp_sfp_send ::
  "csp_build \<Rightarrow> 'b csp_buffer \<Rightarrow> 'u csp_sfp_read_t \<Rightarrow> uint32_t \<Rightarrow> uint32_t \<Rightarrow>
   ('u, 'b) csp_world \<Rightarrow> (csp_err \<times> ('u, 'b) csp_world) option" where
  "csp_sfp_send b buf user_read totalsize mtu w =
     (if mtu = 0 \<or> (ucast mtu :: size_t) > sfp_room b then Some (CSP_ERR_INVAL, w)
      else send_loop b buf user_read totalsize mtu 0 w)"

subsection \<open>\<^verbatim>\<open>csp_sfp_recv_fp\<close>\<close>

text \<open>
  One pass through the body of the \<^verbatim>\<open>do\<close> loop, for the packet in hand. \<open>Inl\<close> is an
  exit from the function with its return value (the \<^verbatim>\<open>goto error\<close> paths and the
  \<^verbatim>\<open>return CSP_ERR_NONE\<close>), \<open>Inr\<close> the new \<^verbatim>\<open>datasize\<close> and \<^verbatim>\<open>data_offset\<close> with which the
  loop reaches its \<^verbatim>\<open>while\<close> condition.
\<close>

definition recv_fragment ::
  "csp_build \<Rightarrow> 'b csp_buffer \<Rightarrow> 'u csp_sfp_write_t \<Rightarrow> uint32_t \<Rightarrow> uint32_t \<Rightarrow> csp_packet_t \<Rightarrow>
   ('u, 'b) csp_world \<Rightarrow> (csp_err \<times> ('u, 'b) csp_world) + (uint32_t \<times> uint32_t \<times> ('u, 'b) csp_world)" where
  "recv_fragment b buf user_write datasize data_offset packet0 w =
     (case csp_sfp_header_remove b packet0 of
        (None, packet) \<Rightarrow> Inl (CSP_ERR_SFP, w\<lparr>pool := csp_buffer_free buf packet (pool w)\<rparr>)
      | (Some sfp_header, packet) \<Rightarrow>
          if sfp_offset sfp_header \<noteq> data_offset \<or> length_pkt packet = 0
             \<or> (ucast (length_pkt packet) :: size_t) > sfp_room b
          then Inl (CSP_ERR_SFP, w\<lparr>pool := csp_buffer_free buf packet (pool w)\<rparr>)
          else
            let datasize1 = (if datasize = 0 then sfp_totalsize sfp_header else datasize)
            in if datasize = 0 \<and> datasize1 = 0
               then Inl (CSP_ERR_SFP, w\<lparr>pool := csp_buffer_free buf packet (pool w)\<rparr>)
               else
                 let (n, user1) = user_write (user_data w) (data_pkt packet) data_offset
                                    (length_pkt packet) (sfp_totalsize sfp_header);
                     w1 = w\<lparr>user_data := user1\<rparr>
                 in if length_pkt packet \<noteq> n
                    then Inl (CSP_ERR_SFP, w1\<lparr>pool := csp_buffer_free buf packet (pool w1)\<rparr>)
                    else
                      let data_offset1 = data_offset + ucast (length_pkt packet);
                          w2 = w1\<lparr>pool := csp_buffer_free buf packet (pool w1)\<rparr>
                      in if data_offset1 \<ge> datasize1
                         then Inl (CSP_ERR_NONE, w2\<lparr>return_datasize := datasize1\<rparr>)
                         else if length_pkt packet = 0
                         then Inl (CSP_ERR_SFP, w2)
                         else Inr (datasize1, data_offset1, w2))"

lemma recv_fragment_rx:
  "recv_fragment b buf user_write datasize data_offset packet w = Inr (datasize1, data_offset1, w1)
   \<Longrightarrow> rx w1 = rx w"
  by (auto simp: recv_fragment_def Let_def split: prod.splits option.splits if_splits)

text \<open>
  The \<^verbatim>\<open>do ... while ((packet = csp_read(conn, timeout)) != NULL)\<close> loop. When
  \<^verbatim>\<open>csp_read\<close> returns \<^verbatim>\<open>NULL\<close> the loop ends and the function returns \<^verbatim>\<open>error\<close>, which
  still holds its initial value \<^verbatim>\<open>CSP_ERR_TIMEDOUT\<close>.
\<close>

function recv_loop ::
  "csp_build \<Rightarrow> 'b csp_buffer \<Rightarrow> 'u csp_sfp_write_t \<Rightarrow> uint32_t \<Rightarrow> uint32_t \<Rightarrow> uint32_t \<Rightarrow>
   csp_packet_t \<Rightarrow> ('u, 'b) csp_world \<Rightarrow> csp_err \<times> ('u, 'b) csp_world" where
  "recv_loop b buf user_write timeout datasize data_offset packet w =
     (case recv_fragment b buf user_write datasize data_offset packet w of
        Inl r \<Rightarrow> r
      | Inr (datasize1, data_offset1, w1) \<Rightarrow>
          (case csp_read timeout w1 of
             (None, w2) \<Rightarrow> (CSP_ERR_TIMEDOUT, w2)
           | (Some packet1, w2) \<Rightarrow> recv_loop b buf user_write timeout datasize1 data_offset1 packet1 w2))"
  by pat_completeness auto
termination
  by (relation "measure (\<lambda>(b, buf, user_write, timeout, datasize, data_offset, packet, w). length (rx w))")
     (auto simp: csp_read_def dest!: recv_fragment_rx split: list.splits)

declare recv_loop.simps [simp del]

definition csp_sfp_recv_fp ::
  "csp_build \<Rightarrow> 'b csp_buffer \<Rightarrow> 'u csp_sfp_write_t \<Rightarrow> uint32_t \<Rightarrow> csp_packet_t option \<Rightarrow>
   ('u, 'b) csp_world \<Rightarrow> csp_err \<times> ('u, 'b) csp_world" where
  "csp_sfp_recv_fp b buf user_write timeout first_packet w =
     (let w0 = w\<lparr>return_datasize := 0\<rparr>
      in case first_packet of
           None \<Rightarrow>
             (case csp_read timeout w0 of
                (None, w1) \<Rightarrow> (CSP_ERR_TIMEDOUT, w1)
              | (Some packet, w1) \<Rightarrow> recv_loop b buf user_write timeout 0 0 packet w1)
         | Some packet \<Rightarrow> recv_loop b buf user_write timeout 0 0 packet w0)"

text \<open>\<^verbatim>\<open>csp_sfp_recv\<close> of \<^verbatim>\<open>csp_sfp.h\<close>: \<^verbatim>\<open>csp_sfp_recv_fp\<close> with no first packet.\<close>

definition csp_sfp_recv ::
  "csp_build \<Rightarrow> 'b csp_buffer \<Rightarrow> 'u csp_sfp_write_t \<Rightarrow> uint32_t \<Rightarrow>
   ('u, 'b) csp_world \<Rightarrow> csp_err \<times> ('u, 'b) csp_world" where
  "csp_sfp_recv b buf user_write timeout w = csp_sfp_recv_fp b buf user_write timeout None w"

section \<open>Reference notions and concrete instances\<close>

text \<open>
  The big-endian reading of four bytes of an array, written out as arithmetic: what the
  wire format promises, independent of the conversions of the code.
\<close>

definition be32_at :: "uint8_t list \<Rightarrow> nat \<Rightarrow> nat" where
  "be32_at d i =
     unat (d ! i) * 2 ^ 24 + unat (d ! (i + 1)) * 2 ^ 16 + unat (d ! (i + 2)) * 2 ^ 8 + unat (d ! (i + 3))"

definition demo_build :: csp_build where
  "demo_build = \<lparr>CSP_BUFFER_SIZE = 16, CSP_FFRAG = 0x10, little_endian = True\<rparr>"

definition demo_fragment :: csp_packet_t where
  "demo_fragment = \<lparr>id_flags = 0x10, length_pkt = 9,
     data_pkt = [7, 0, 0, 0, 0, 0, 0, 1, 3, 0, 0, 0, 0, 0, 0, 0]\<rparr>"

definition demo_unflagged :: csp_packet_t where
  "demo_unflagged = \<lparr>id_flags = 0x01, length_pkt = 9,
     data_pkt = [7, 0, 0, 0, 0, 0, 0, 1, 3, 0, 0, 0, 0, 0, 0, 0]\<rparr>"

definition demo_bad_trailer :: csp_packet_t where
  "demo_bad_trailer = \<lparr>id_flags = 0x10, length_pkt = 9,
     data_pkt = [7, 0, 0, 0, 5, 0, 0, 0, 3, 0, 0, 0, 0, 0, 0, 0]\<rparr>"

text \<open>
  A source and a pool for concrete runs: \<open>mem_read src\<close> copies \<open>size\<close> bytes of \<open>src\<close>,
  from \<open>offset\<close> on, to the start of the packet's data array and returns \<open>size\<close>;
  \<open>endless_pool n\<close> always hands out a zeroed packet with a data array of \<open>n\<close> bytes.
\<close>

definition mem_read :: "uint8_t list \<Rightarrow> 'u csp_sfp_read_t" where
  "mem_read src user d off sz = (sz, store_bytes d 0 (load_bytes src (unat off) (unat sz)), user)"

definition zero_read :: "'u csp_sfp_read_t" where
  "zero_read user d off sz = (sz, store_bytes d 0 (replicate (unat sz) 0), user)"

definition blank_packet :: "nat \<Rightarrow> csp_packet_t" where
  "blank_packet n = \<lparr>id_flags = 0, length_pkt = 0, data_pkt = replicate n 0\<rparr>"

definition endless_pool :: "nat \<Rightarrow> unit csp_buffer" where
  "endless_pool n = \<lparr>csp_buffer_get = (\<lambda>s. (Some (blank_packet n), s)), csp_buffer_free = (\<lambda>p s. s)\<rparr>"

definition demo_world :: "(unit, unit) csp_world" where
  "demo_world = \<lparr>idout_flags = 0x01, tx = [], rx = [], user_data = (), pool = (), return_datasize = 77\<rparr>"

definition demo_src :: "uint8_t list" where
  "demo_src = [1, 2, 3, 4, 5, 6, 7, 8, 9, 10]"

definition demo_sent :: "(unit, unit) csp_world" where
  "demo_sent = \<lparr>idout_flags = 0x11,
      tx = [\<lparr>id_flags = 0x11, length_pkt = 12,
               data_pkt = [1, 2, 3, 4, 0, 0, 0, 0, 0, 0, 0, 10, 0, 0, 0, 0]\<rparr>,
            \<lparr>id_flags = 0x11, length_pkt = 12,
               data_pkt = [5, 6, 7, 8, 0, 0, 0, 4, 0, 0, 0, 10, 0, 0, 0, 0]\<rparr>,
            \<lparr>id_flags = 0x11, length_pkt = 10,
               data_pkt = [9, 10, 0, 0, 0, 8, 0, 0, 0, 10, 0, 0, 0, 0, 0, 0]\<rparr>],
      rx = [], user_data = (), pool = (), return_datasize = 77\<rparr>"

text \<open>
  A sink for concrete runs, the counterpart of \<open>mem_read\<close>: \<open>mem_write\<close> copies the first
  \<open>size\<close> bytes of the packet's data array into the user's memory at \<open>offset\<close> and
  returns \<open>size\<close>. Then a receiver whose channel holds the three fragments of
  \<open>demo_sent\<close>, one with an empty channel, and a fragment that is nothing but a trailer.
\<close>

definition mem_write :: "uint8_t list csp_sfp_write_t" where
  "mem_write mem d off sz tot = (sz, store_bytes mem (unat off) (take (unat sz) d))"

definition demo_rx_world :: "(uint8_t list, unit) csp_world" where
  "demo_rx_world = \<lparr>idout_flags = 0, tx = [], rx = tx demo_sent, user_data = replicate 10 0,
     pool = (), return_datasize = 77\<rparr>"

definition demo_idle_world :: "(uint8_t list, unit) csp_world" where
  "demo_idle_world = \<lparr>idout_flags = 0, tx = [], rx = [], user_data = replicate 10 0,
     pool = (), return_datasize = 77\<rparr>"


text \<open>
  To see how the write capability is invoked, \<open>traced user_write\<close> is \<open>user_write\<close>
  keeping a list of its calls beside the user's state: for each call the \<open>size\<close> bytes
  that \<open>data\<close> points to, the three other arguments, and the value returned.
  \<open>writes_follow b data_offset packets calls\<close> says that the calls are, in order, those
  for the packets at the head of \<open>packets\<close>: each call passes the payload of its packet
  after the trailer is removed, the running offset, the payload length, and the total size
  of the trailer of that same packet; a call that is not the last returned its size.
\<close>

record write_call =
  wc_data :: "uint8_t list"
  wc_offset :: uint32_t
  wc_size :: uint16_t
  wc_totalsize :: uint32_t
  wc_returned :: uint16_t

definition traced :: "'u csp_sfp_write_t \<Rightarrow> ('u \<times> write_call list) csp_sfp_write_t" where
  "traced user_write =
     (\<lambda>(user, calls) d off sz tot.
        let (n, user1) = user_write user d off sz tot
        in (n, (user1, calls @ [\<lparr>wc_data = take (unat sz) d, wc_offset = off, wc_size = sz,
                                    wc_totalsize = tot, wc_returned = n\<rparr>])))"

fun writes_follow :: "csp_build \<Rightarrow> uint32_t \<Rightarrow> csp_packet_t list \<Rightarrow> write_call list \<Rightarrow> bool" where
  "writes_follow b data_offset packets [] = True"
| "writes_follow b data_offset [] (c # cs) = False"
| "writes_follow b data_offset (packet # packets) (c # cs) =
     (case csp_sfp_header_remove b packet of
        (None, packet1) \<Rightarrow> False
      | (Some h, packet1) \<Rightarrow>
          wc_data c = take (unat (length_pkt packet1)) (data_pkt packet1)
          \<and> wc_offset c = data_offset
          \<and> wc_size c = length_pkt packet1
          \<and> wc_totalsize c = sfp_totalsize h
          \<and> (cs = [] \<or> wc_returned c = wc_size c)
          \<and> writes_follow b (data_offset + ucast (length_pkt packet1)) packets cs)"

definition calls_of :: "('u \<times> write_call list, 'b) csp_world \<Rightarrow> write_call list" where
  "calls_of w = snd (user_data w)"

text \<open>
  A receiver, with a traced sink, whose channel holds three fragments of a 10-byte
  transfer; the trailer of the second one declares a total size of 99.
\<close>

definition demo_mixed_world :: "(uint8_t list \<times> write_call list, unit) csp_world" where
  "demo_mixed_world = \<lparr>idout_flags = 0, tx = [],
      rx = [\<lparr>id_flags = 0x11, length_pkt = 12,
               data_pkt = [1, 2, 3, 4, 0, 0, 0, 0, 0, 0, 0, 10, 0, 0, 0, 0]\<rparr>,
            \<lparr>id_flags = 0x11, length_pkt = 12,
               data_pkt = [5, 6, 7, 8, 0, 0, 0, 4, 0, 0, 0, 99, 0, 0, 0, 0]\<rparr>,
            \<lparr>id_flags = 0x11, length_pkt = 10,
               data_pkt = [9, 10, 0, 0, 0, 8, 0, 0, 0, 10, 0, 0, 0, 0, 0, 0]\<rparr>],
      user_data = (replicate 10 0, []), pool = (), return_datasize = 77\<rparr>"

text \<open>
  What "allocation succeeds" and "every read succeeds" mean for the collaborators of
  \<^verbatim>\<open>csp_sfp_send\<close>: the pool never returns \<^verbatim>\<open>NULL\<close>, the read capability always returns
  the size it was asked for.
\<close>

definition pool_never_empty :: "'b csp_buffer \<Rightarrow> bool" where
  "pool_never_empty buf \<longleftrightarrow> (\<forall>s. fst (csp_buffer_get buf s) \<noteq> None)"

definition read_returns_size :: "'u csp_sfp_read_t \<Rightarrow> bool" where
  "read_returns_size user_read \<longleftrightarrow> (\<forall>u d off sz. fst (user_read u d off sz) = sz)"

text \<open>
  The contracts of the two capabilities for a transfer of the bytes \<open>src\<close>:
  \<open>reads_from src user_read\<close> says that a read inside \<open>src\<close> returns the size asked
  for and leaves that many bytes of \<open>src\<close>, from \<open>offset\<close> on, at the start of the data
  array, whose size it does not change; \<open>write_returns_size user_write\<close> says that a write
  returns the size it was given. \<open>writes_cover src totalsize count calls\<close> says that the
  calls deliver the bytes of \<open>src\<close> from \<open>count\<close> to the end, in order and without
  gaps: each call passes a non-empty piece of \<open>src\<close>, its place in \<open>src\<close> as the offset,
  its length as the size and \<open>totalsize\<close> as the total, and returned its size.
\<close>

definition reads_from :: "uint8_t list \<Rightarrow> 'u csp_sfp_read_t \<Rightarrow> bool" where
  "reads_from src user_read \<longleftrightarrow>
     (\<forall>user d off sz. unat off + unat sz \<le> length src \<and> unat sz \<le> length d \<longrightarrow>
        (\<exists>filled user1. user_read user d off sz = (sz, filled, user1)
            \<and> length filled = length d
            \<and> take (unat sz) filled = take (unat sz) (drop (unat off) src)))"

definition write_returns_size :: "'u csp_sfp_write_t \<Rightarrow> bool" where
  "write_returns_size user_write \<longleftrightarrow> (\<forall>user d off sz tot. fst (user_write user d off sz tot) = sz)"

fun writes_cover :: "uint8_t list \<Rightarrow> uint32_t \<Rightarrow> nat \<Rightarrow> write_call list \<Rightarrow> bool" where
  "writes_cover src totalsize count [] \<longleftrightarrow> count = length src"
| "writes_cover src totalsize count (c # cs) \<longleftrightarrow>
     wc_data c \<noteq> [] \<and> count + length (wc_data c) \<le> length src
     \<and> wc_data c = take (length (wc_data c)) (drop count src)
     \<and> unat (wc_offset c) = count \<and> unat (wc_size c) = length (wc_data c)
     \<and> wc_totalsize c = totalsize \<and> wc_returned c = wc_size c
     \<and> writes_cover src totalsize (count + length (wc_data c)) cs"

text \<open>
  For the round trip: a build in which a payload and its trailer fit the 16-bit
  \<^verbatim>\<open>packet->length\<close> and the fragment flag is a bit at all; a pool that always hands out
  a packet whose data array has \<^verbatim>\<open>CSP_BUFFER_SIZE\<close> bytes; and the fragments of a transfer
  of \<open>whole\<close> bytes of \<open>src\<close> as they should be on the wire from \<open>count\<close> on: each
  flagged, carrying the next \<open>min mtu (whole - count)\<close> bytes of \<open>src\<close> followed by the
  big-endian trailer \<open>(count, whole)\<close>, until \<open>count\<close> reaches \<open>whole\<close>.
\<close>

definition pool_hands_out :: "csp_build \<Rightarrow> 'b csp_buffer \<Rightarrow> bool" where
  "pool_hands_out b buf \<longleftrightarrow>
     (\<forall>s. \<exists>packet s1. csp_buffer_get buf s = (Some packet, s1)
                       \<and> length (data_pkt packet) = CSP_BUFFER_SIZE b)"

definition build_ok :: "csp_build \<Rightarrow> bool" where
  "build_ok b \<longleftrightarrow> 8 \<le> CSP_BUFFER_SIZE b \<and> CSP_BUFFER_SIZE b \<le> 65535 \<and> CSP_FFRAG b \<noteq> 0"

fun wire_ok :: "csp_build \<Rightarrow> uint8_t list \<Rightarrow> nat \<Rightarrow> nat \<Rightarrow> nat \<Rightarrow> csp_packet_t list \<Rightarrow> bool" where
  "wire_ok b src whole mtu count [] \<longleftrightarrow> count = whole"
| "wire_ok b src whole mtu count (p # ps) \<longleftrightarrow>
     count < whole \<and>
     (let n = min mtu (whole - count)
      in id_flags p AND CSP_FFRAG b = CSP_FFRAG b
         \<and> unat (length_pkt p) = n + 8
         \<and> length (data_pkt p) = CSP_BUFFER_SIZE b
         \<and> take n (data_pkt p) = take n (drop count src)
         \<and> load_bytes (data_pkt p) n 4 = be32_bytes (of_nat count)
         \<and> load_bytes (data_pkt p) (n + 4) 4 = be32_bytes (of_nat whole)
         \<and> wire_ok b src whole mtu (count + n) ps)"

section \<open>The trailer codec\<close>

subsection \<open>Bytes and byte order\<close>

lemma unat_ucast_8_32: "unat (ucast (b::8 word) :: 32 word) = unat b"
proof -
  have "unat b < 2 ^ 8" using unsigned_less [of b] by simp
  then have "unat b < 2 ^ 32" by simp
  then show ?thesis by (simp add: unsigned_ucast_eq take_bit_nat_eq_self)
qed

lemma be32_value4:
  "be32_value [a, b, c, d] =
     push_bit 24 (ucast a) OR push_bit 16 (ucast b) OR push_bit 8 (ucast c) OR ucast d"
  unfolding be32_value_def
  apply simp
  apply (rule bit_word_eqI)
  apply (auto simp: bit_simps)
  done

lemma be32_value_bytes [simp]: "be32_value (be32_bytes w) = w"
  unfolding be32_bytes_def be32_value4
  apply (rule bit_word_eqI)
  apply (simp add: bit_simps)
  apply (case_tac "n < 8"; case_tac "n < 16"; case_tac "n < 24"; simp)
  apply auto
  done

lemma be32_bytes_value4: "be32_bytes (be32_value [a, b, c, d]) = [a, b, c, d]"
  unfolding be32_value4 be32_bytes_def
  apply simp
  apply (intro conjI; rule bit_word_eqI)
  apply (auto simp: bit_simps dest: bit_imp_le_length)
  done

lemma length4E:
  assumes "length bs = 4"
  obtains a b c d where "bs = [a, b, c, d]"
  using assms by (auto simp: length_Suc_conv numeral_eq_Suc)

lemma be32_bytes_value: "length bs = 4 \<Longrightarrow> be32_bytes (be32_value bs) = bs"
  by (erule length4E) (simp add: be32_bytes_value4)

lemma length_be32_bytes [simp]: "length (be32_bytes w) = 4"
  by (simp add: be32_bytes_def)

lemma length_host_bytes [simp]: "length (host_bytes le w) = 4"
  by (simp add: host_bytes_def)

lemma be32toh_host_value: "length bs = 4 \<Longrightarrow> be32toh le (host_value le bs) = be32_value bs"
  by (simp add: be32toh_def host_value_def bswap32_def be32_bytes_value)

lemma host_bytes_htobe32 [simp]: "host_bytes le (htobe32 le w) = be32_bytes w"
  by (simp add: host_bytes_def htobe32_def bswap32_def be32_bytes_value)

lemma length_load_bytes: "i + n \<le> length d \<Longrightarrow> length (load_bytes d i n) = n"
  by (simp add: load_bytes_def)

lemma length_store_bytes: "i + length bs \<le> length d \<Longrightarrow> length (store_bytes d i bs) = length d"
  by (simp add: store_bytes_def)

lemma load_store_after:
  "i + length bs \<le> length d \<Longrightarrow> i + length bs \<le> j \<Longrightarrow> load_bytes (store_bytes d i bs) j n = load_bytes d j n"
  by (simp add: load_bytes_def store_bytes_def)

lemma load_store_before:
  "j + n \<le> i \<Longrightarrow> i \<le> length d \<Longrightarrow> load_bytes (store_bytes d i bs) j n = load_bytes d j n"
  by (simp add: load_bytes_def store_bytes_def take_drop)

lemma load_store_same:
  "i \<le> length d \<Longrightarrow> load_bytes (store_bytes d i bs) i (length bs) = bs"
  by (simp add: load_bytes_def store_bytes_def)

lemma take_store_before:
  "n \<le> i \<Longrightarrow> i \<le> length d \<Longrightarrow> take n (store_bytes d i bs) = take n d"
  by (simp add: store_bytes_def)

text \<open>
  The decode on a packet that passes the two first checks: the in-place conversion reads
  the two fields big-endian, whatever the byte order of the host.
\<close>

lemma csp_sfp_header_remove_read:
  assumes "id_flags p AND CSP_FFRAG b \<noteq> 0" and "8 \<le> unat (length_pkt p)"
    and "unat (length_pkt p) \<le> length (data_pkt p)"
  shows "fst (csp_sfp_header_remove b p) =
     (let off = be32_value (load_bytes (data_pkt p) (unat (length_pkt p) - 8) 4);
          tot = be32_value (load_bytes (data_pkt p) (unat (length_pkt p) - 4) 4)
      in if off > tot then None else Some \<lparr>sfp_offset = off, sfp_totalsize = tot\<rparr>)"
proof -
  let ?n = "unat (length_pkt p)"
  let ?d = "data_pkt p"
  have l1: "length (load_bytes ?d (?n - 8) 4) = 4"
    using assms by (simp add: length_load_bytes)
  have e: "?n - 8 + 4 = ?n - 4" using assms by simp
  have l2: "load_bytes (store_bytes ?d (?n - 8) (host_bytes (little_endian b) x)) (?n - 4) 4
      = load_bytes ?d (?n - 4) 4" for x
    using assms by (subst load_store_after) simp_all
  have l3: "length (load_bytes ?d (?n - 4) 4) = 4"
    using assms by (simp add: length_load_bytes)
  show ?thesis
    using assms
    by (simp add: csp_sfp_header_remove_def sizeof_sfp_header_t_def Let_def e l2
        be32toh_host_value [OF l1] be32toh_host_value [OF l3])
qed

lemma load_bytes4:
  assumes "i + 4 \<le> length d"
  shows "load_bytes d i 4 = [d ! i, d ! (i + 1), d ! (i + 2), d ! (i + 3)]"
proof (rule nth_equalityI)
  show "length (load_bytes d i 4) = length [d ! i, d ! (i + 1), d ! (i + 2), d ! (i + 3)]"
    using assms by (simp add: load_bytes_def)
next
  fix k assume "k < length (load_bytes d i 4)"
  then have k: "k < 4" using assms by (simp add: load_bytes_def)
  then have "k = 0 \<or> k = 1 \<or> k = 2 \<or> k = 3" by arith
  then show "load_bytes d i 4 ! k = [d ! i, d ! (i + 1), d ! (i + 2), d ! (i + 3)] ! k"
    using assms by (auto simp: load_bytes_def)
qed

lemma unat_be32_step:
  fixes x :: "32 word" and b :: "8 word"
  assumes "unat x < 2 ^ 24"
  shows "unat (push_bit 8 x OR ucast b) = unat x * 256 + unat b"
proof -
  have b: "unat b < 256" using unsigned_less [of b] by simp
  have "push_bit 8 x OR ucast b = push_bit 8 x + (ucast b :: 32 word)"
    by (rule disjunctive_add_eq_or [symmetric]) (auto simp: bit_eq_iff bit_simps dest: bit_imp_le_length)
  moreover have "unat (push_bit 8 x) = unat x * 256"
  proof -
    have "unat (x * 256) = unat x * unat (256 :: 32 word)"
      using assms by (subst unat_mult_lem [symmetric]) simp
    then show ?thesis by (simp add: push_bit_eq_mult)
  qed
  moreover have "unat (push_bit 8 x + (ucast b :: 32 word)) = unat (push_bit 8 x) + unat (ucast b :: 32 word)"
  proof -
    have "unat (push_bit 8 x) + unat (ucast b :: 32 word) < 2 ^ LENGTH(32)"
      using assms b unfolding calculation(2) unat_ucast_8_32 by simp
    then show ?thesis by (simp only: unat_add_lem)
  qed
  ultimately show ?thesis
    by (simp only: unat_ucast_8_32)
qed

lemma unat_be32_value:
  "unat (be32_value [a, b, c, d]) = unat a * 2 ^ 24 + unat b * 2 ^ 16 + unat c * 2 ^ 8 + unat d"
proof -
  have a: "unat a < 256" using unsigned_less [of a] by simp
  have b: "unat b < 256" using unsigned_less [of b] by simp
  have c: "unat c < 256" using unsigned_less [of c] by simp
  have 1: "unat (push_bit 8 (0::32 word) OR ucast a) = unat a"
    by (simp add: unat_ucast_8_32)
  have 2: "unat (push_bit 8 (push_bit 8 (0::32 word) OR ucast a) OR ucast b) = unat a * 256 + unat b"
    using a by (subst unat_be32_step) (simp_all only: 1, simp)
  have 3: "unat (push_bit 8 (push_bit 8 (push_bit 8 (0::32 word) OR ucast a) OR ucast b) OR ucast c)
      = (unat a * 256 + unat b) * 256 + unat c"
    using a b by (subst unat_be32_step) (simp_all only: 2, simp)
  have 4: "unat (push_bit 8 (push_bit 8 (push_bit 8 (push_bit 8 (0::32 word) OR ucast a) OR ucast b) OR ucast c) OR ucast d)
      = ((unat a * 256 + unat b) * 256 + unat c) * 256 + unat d"
    using a b c by (subst unat_be32_step) (simp_all only: 3, simp)
  show ?thesis
    unfolding be32_value_def foldl.simps 4 by simp
qed

lemma unat_be32_load: "i + 4 \<le> length d \<Longrightarrow> unat (be32_value (load_bytes d i 4)) = be32_at d i"
  by (simp add: load_bytes4 unat_be32_value be32_at_def)

subsection \<open>Decoding the trailer\<close>

text \<open>
  Claim C4. For a message whose payload length does not exceed its data array, the
  trailer decode \<^verbatim>\<open>csp_sfp_header_remove\<close> returns \<open>None\<close> exactly when the fragment flag
  is absent, or the payload is shorter than 8 bytes, or the offset read big-endian exceeds
  the total size read big-endian; otherwise it returns the trailer whose offset and total
  size are the big-endian readings of the last 8 bytes of the payload.
\<close>

theorem csp_sfp_header_remove_decode:
  assumes "unat (length_pkt p) \<le> length (data_pkt p)"
  shows "(fst (csp_sfp_header_remove b p) = None \<longleftrightarrow>
            id_flags p AND CSP_FFRAG b = 0 \<or> unat (length_pkt p) < 8 \<or>
            be32_at (data_pkt p) (unat (length_pkt p) - 8) > be32_at (data_pkt p) (unat (length_pkt p) - 4))
       \<and> (\<forall>h. fst (csp_sfp_header_remove b p) = Some h \<longrightarrow>
            unat (sfp_offset h) = be32_at (data_pkt p) (unat (length_pkt p) - 8) \<and>
            unat (sfp_totalsize h) = be32_at (data_pkt p) (unat (length_pkt p) - 4))"
proof (cases "id_flags p AND CSP_FFRAG b = 0 \<or> unat (length_pkt p) < 8")
  case True
  then show ?thesis
    by (auto simp: csp_sfp_header_remove_def sizeof_sfp_header_t_def)
next
  case False
  let ?n = "unat (length_pkt p)"
  from False have f: "id_flags p AND CSP_FFRAG b \<noteq> 0" and n: "8 \<le> ?n" by auto
  have o: "unat (be32_value (load_bytes (data_pkt p) (?n - 8) 4)) = be32_at (data_pkt p) (?n - 8)"
    using assms n by (intro unat_be32_load) simp
  have t: "unat (be32_value (load_bytes (data_pkt p) (?n - 4) 4)) = be32_at (data_pkt p) (?n - 4)"
    using assms n by (intro unat_be32_load) simp
  show ?thesis
    using False o t
    by (auto simp: csp_sfp_header_remove_read [OF f n assms] Let_def word_less_nat_alt)
qed

theorem csp_sfp_header_remove_decode_witness:
  "unat (length_pkt demo_fragment) \<le> length (data_pkt demo_fragment)
   \<and> fst (csp_sfp_header_remove demo_build demo_fragment) = Some \<lparr>sfp_offset = 0, sfp_totalsize = 259\<rparr>
   \<and> be32_at (data_pkt demo_fragment) (unat (length_pkt demo_fragment) - 8) = 0
   \<and> be32_at (data_pkt demo_fragment) (unat (length_pkt demo_fragment) - 4) = 259"
proof -
  have h: "unat (length_pkt demo_fragment) \<le> length (data_pkt demo_fragment)"
    by (simp add: demo_fragment_def)
  have r: "fst (csp_sfp_header_remove demo_build demo_fragment) = Some \<lparr>sfp_offset = 0, sfp_totalsize = 259\<rparr>"
    by code_simp
  from csp_sfp_header_remove_decode [OF h, of demo_build] r
  have "unat (sfp_offset \<lparr>sfp_offset = 0, sfp_totalsize = 259\<rparr>) = be32_at (data_pkt demo_fragment) (unat (length_pkt demo_fragment) - 8)
      \<and> unat (sfp_totalsize \<lparr>sfp_offset = 0, sfp_totalsize = 259\<rparr>) = be32_at (data_pkt demo_fragment) (unat (length_pkt demo_fragment) - 4)"
    by blast
  with h r show ?thesis by simp
qed

text \<open>
  Claim C8, as amended. The decode leaves the message as it was when it returns \<open>None\<close>
  because the fragment flag is absent or the payload is shorter than 8 bytes. Once both
  checks have passed, the payload length is 8 smaller after the call, whether the trailer
  is returned or \<open>None\<close> is returned for an offset beyond the total size: the length is
  reduced before the two fields are compared.
\<close>

theorem csp_sfp_header_remove_length:
  "length_pkt (snd (csp_sfp_header_remove b p)) =
     (if id_flags p AND CSP_FFRAG b = 0 \<or> unat (length_pkt p) < 8 then length_pkt p
      else length_pkt p - 8)
   \<and> (id_flags p AND CSP_FFRAG b = 0 \<or> unat (length_pkt p) < 8 \<longrightarrow> snd (csp_sfp_header_remove b p) = p)"
  by (simp add: csp_sfp_header_remove_def sizeof_sfp_header_t_def Let_def)

theorem csp_sfp_header_remove_length_witness:
  "id_flags demo_unflagged AND CSP_FFRAG demo_build = 0
   \<and> snd (csp_sfp_header_remove demo_build demo_unflagged) = demo_unflagged
   \<and> length_pkt (snd (csp_sfp_header_remove demo_build demo_unflagged)) = 9"
proof -
  have h: "id_flags demo_unflagged AND CSP_FFRAG demo_build = 0"
    by (simp add: demo_unflagged_def demo_build_def)
  have l: "length_pkt demo_unflagged = 9"
    by (simp add: demo_unflagged_def)
  from csp_sfp_header_remove_length [of demo_build demo_unflagged] h l show ?thesis
    by simp
qed

text \<open>
  Claim C8 as stated fails: on a flagged 9-byte message whose trailer has offset 5 and
  total size 3 the decode returns \<open>None\<close>, and the payload length has gone from 9 to 1.
\<close>

theorem csp_sfp_header_remove_none_shrinks:
  "fst (csp_sfp_header_remove demo_build demo_bad_trailer) = None
   \<and> length_pkt demo_bad_trailer = 9
   \<and> length_pkt (snd (csp_sfp_header_remove demo_build demo_bad_trailer)) = 1"
  by code_simp

section \<open>Sending\<close>

subsection \<open>Conversions between the integer types\<close>

lemma unat_sfp_room:
  assumes "8 \<le> CSP_BUFFER_SIZE b" and "CSP_BUFFER_SIZE b < 2 ^ 64"
  shows "unat (sfp_room b) = CSP_BUFFER_SIZE b - 8"
proof -
  have "unat (of_nat (CSP_BUFFER_SIZE b) :: size_t) = CSP_BUFFER_SIZE b"
    using assms by (simp add: unat_of_nat)
  moreover have "(8 :: size_t) \<le> of_nat (CSP_BUFFER_SIZE b)"
    using assms calculation by (simp add: word_le_nat_alt)
  ultimately show ?thesis
    by (simp add: sfp_room_def sizeof_sfp_header_t_def unat_sub)
qed

lemma unat_ucast_32_64: "unat (ucast (x :: uint32_t) :: size_t) = unat x"
proof -
  have "unat x < 2 ^ 32" using unsigned_less [of x] by simp
  then have "unat x < 2 ^ 64" by simp
  then show ?thesis by (simp add: unsigned_ucast_eq take_bit_nat_eq_self)
qed

lemma unat_ucast_16_64: "unat (ucast (x :: uint16_t) :: size_t) = unat x"
proof -
  have "unat x < 2 ^ 16" using unsigned_less [of x] by simp
  then have "unat x < 2 ^ 64" by simp
  then show ?thesis by (simp add: unsigned_ucast_eq take_bit_nat_eq_self)
qed

lemma unat_ucast_16_32: "unat (ucast (x :: uint16_t) :: uint32_t) = unat x"
proof -
  have "unat x < 2 ^ 16" using unsigned_less [of x] by simp
  then have "unat x < 2 ^ 32" by simp
  then show ?thesis by (simp add: unsigned_ucast_eq take_bit_nat_eq_self)
qed

lemma unat_ucast_32_16: "unat (ucast (x :: uint32_t) :: uint16_t) = unat x mod 65536"
  by (simp add: unsigned_ucast_eq take_bit_eq_mod)

subsection \<open>One fragment\<close>

lemma send_fragment_Inl:
  assumes "send_fragment b buf user_read totalsize mtu count w = Inl (e, w1)"
  shows "(e = CSP_ERR_NOMEM \<or> e = CSP_ERR_SFP) \<and> tx w1 = tx w \<and> idout_flags w1 = idout_flags w
         \<and> rx w1 = rx w \<and> return_datasize w1 = return_datasize w"
  using assms
  apply (simp add: send_fragment_def Let_def csp_send_def csp_sfp_header_add_def
      split: prod.splits option.splits if_splits)
  apply auto
  done

lemma send_fragment_sent:
  assumes "csp_buffer_get buf (pool w) = (Some packet, pool1)"
    and "user_read (user_data w) (data_pkt packet) count (sending_size totalsize mtu count)
           = (sending_size totalsize mtu count, filled, user1)"
  shows "send_fragment b buf user_read totalsize mtu count w =
     Inr (count + ucast (sending_size totalsize mtu count),
          w\<lparr>pool := pool1, user_data := user1,
            idout_flags := idout_flags w OR CSP_FFRAG b,
            tx := tx w @
              [packet\<lparr>data_pkt :=
                        store_bytes
                          (store_bytes filled (unat (sending_size totalsize mtu count) + 4)
                             (be32_bytes totalsize))
                          (unat (sending_size totalsize mtu count)) (be32_bytes count),
                      length_pkt := sending_size totalsize mtu count + 8,
                      id_flags := idout_flags w OR CSP_FFRAG b\<rparr>]\<rparr>)"
  using assms
  by (simp add: send_fragment_def Let_def csp_send_def csp_sfp_header_add_def sizeof_sfp_header_t_def)

lemma send_fragment_Inr:
  assumes "send_fragment b buf user_read totalsize mtu count w = Inr (count1, w1)"
  shows "\<exists>p. tx w1 = tx w @ [p] \<and> id_flags p = idout_flags w OR CSP_FFRAG b
           \<and> idout_flags w1 = idout_flags w OR CSP_FFRAG b"
proof -
  obtain r pool1 where g: "csp_buffer_get buf (pool w) = (r, pool1)"
    by (cases "csp_buffer_get buf (pool w)")
  with assms obtain packet where r: "r = Some packet"
    by (cases r) (simp_all add: send_fragment_def)
  obtain n filled user1 where
    u: "user_read (user_data w) (data_pkt packet) count (sending_size totalsize mtu count) = (n, filled, user1)"
    by (cases "user_read (user_data w) (data_pkt packet) count (sending_size totalsize mtu count)")
  have n: "n = sending_size totalsize mtu count"
    using assms g r u by (simp add: send_fragment_def Let_def split: if_splits)
  have g': "csp_buffer_get buf (pool w) = (Some packet, pool1)" using g r by simp
  have u': "user_read (user_data w) (data_pkt packet) count (sending_size totalsize mtu count)
     = (sending_size totalsize mtu count, filled, user1)" using u n by simp
  have "send_fragment b buf user_read totalsize mtu count w = Inr (count + ucast (sending_size totalsize mtu count),
          w\<lparr>pool := pool1, user_data := user1,
            idout_flags := idout_flags w OR CSP_FFRAG b,
            tx := tx w @
              [packet\<lparr>data_pkt :=
                        store_bytes
                          (store_bytes filled (unat (sending_size totalsize mtu count) + 4)
                             (be32_bytes totalsize))
                          (unat (sending_size totalsize mtu count)) (be32_bytes count),
                      length_pkt := sending_size totalsize mtu count + 8,
                      id_flags := idout_flags w OR CSP_FFRAG b\<rparr>]\<rparr>)"
    using g' u' by (rule send_fragment_sent)
  with assms show ?thesis by auto
qed

subsection \<open>The loop\<close>

text \<open>One unfolding of the loop, in the three ways it can go.\<close>

lemma send_loop_done:
  "\<not> count < totalsize \<Longrightarrow> send_loop b buf user_read totalsize mtu count w = Some (CSP_ERR_NONE, w)"
  by (subst send_loop.simps) simp

lemma send_loop_exit:
  "count < totalsize \<Longrightarrow> send_fragment b buf user_read totalsize mtu count w = Inl r \<Longrightarrow>
   send_loop b buf user_read totalsize mtu count w = Some r"
  by (subst send_loop.simps) simp

lemma send_loop_next:
  "count < totalsize \<Longrightarrow> send_fragment b buf user_read totalsize mtu count w = Inr (count1, w1) \<Longrightarrow>
   send_loop b buf user_read totalsize mtu count w = send_loop b buf user_read totalsize mtu count1 w1"
  by (subst send_loop.simps) simp

lemmas send_loop_induct = send_loop.raw_induct [rotated, consumes 1, case_names step]

lemma send_loop_not_inval:
  "send_loop b buf user_read totalsize mtu count w = Some r \<Longrightarrow> fst r \<noteq> CSP_ERR_INVAL"
proof (induction rule: send_loop_induct)
  case (step f b buf user_read totalsize mtu count w r)
  note 1 = step
  show ?case
  proof (cases "count < totalsize")
    case False
    with 1(2) show ?thesis by auto
  next
    case True
    show ?thesis
    proof (cases "send_fragment b buf user_read totalsize mtu count w")
      case (Inl x)
      with True 1(2) have "send_fragment b buf user_read totalsize mtu count w = Inl (fst r, snd r)"
        by simp
      from send_fragment_Inl [OF this] show ?thesis by auto
    next
      case (Inr y)
      obtain count1 w1 where y: "y = (count1, w1)" by (cases y)
      with True Inr 1(2) have "f b buf user_read totalsize mtu count1 w1 = Some r"
        by simp
      from 1(1) [OF this] show ?thesis .
    qed
  qed
qed

lemma or_and_absorb: "(x OR f) AND f = (f :: 'a::len word)"
  by (rule bit_word_eqI) (auto simp: bit_simps)

lemma send_loop_flags:
  "send_loop b buf user_read totalsize mtu count w = Some r \<Longrightarrow>
   \<exists>new. tx (snd r) = tx w @ new
      \<and> (\<forall>p \<in> set new. id_flags p = idout_flags w OR CSP_FFRAG b)
      \<and> idout_flags (snd r) = (if new = [] then idout_flags w else idout_flags w OR CSP_FFRAG b)"
proof (induction rule: send_loop_induct)
  case (step f b buf user_read totalsize mtu count w r)
  show ?case
  proof (cases "count < totalsize")
    case False
    with step(2) have "r = (CSP_ERR_NONE, w)" by simp
    then show ?thesis by (intro exI [where x = "[]"]) simp
  next
    case True
    show ?thesis
    proof (cases "send_fragment b buf user_read totalsize mtu count w")
      case (Inl x)
      with True step(2) have "send_fragment b buf user_read totalsize mtu count w = Inl (fst r, snd r)"
        by simp
      from send_fragment_Inl [OF this] show ?thesis
        by (intro exI [where x = "[]"]) simp
    next
      case (Inr y)
      obtain count1 w1 where y: "y = (count1, w1)" by (cases y)
      with True Inr step(2) have "f b buf user_read totalsize mtu count1 w1 = Some r"
        by simp
      from step(1) [OF this] obtain new where new: "tx (snd r) = tx w1 @ new"
        "\<forall>p \<in> set new. id_flags p = idout_flags w1 OR CSP_FFRAG b"
        "idout_flags (snd r) = (if new = [] then idout_flags w1 else idout_flags w1 OR CSP_FFRAG b)"
        by blast
      from send_fragment_Inr [OF Inr [unfolded y]] obtain p where p: "tx w1 = tx w @ [p]"
        "id_flags p = idout_flags w OR CSP_FFRAG b" "idout_flags w1 = idout_flags w OR CSP_FFRAG b"
        by blast
      have idem: "idout_flags w OR CSP_FFRAG b OR CSP_FFRAG b = idout_flags w OR CSP_FFRAG b"
        by (simp add: or.assoc)
      have "tx (snd r) = tx w @ (p # new)" using new(1) p(1) by simp
      moreover have "\<forall>q \<in> set (p # new). id_flags q = idout_flags w OR CSP_FFRAG b"
        using new(2) p(2,3) by (simp add: idem)
      moreover have "idout_flags (snd r) = idout_flags w OR CSP_FFRAG b"
        using new(3) p(3) by (simp add: idem)
      ultimately show ?thesis
        by (intro exI [where x = "p # new"]) simp
    qed
  qed
qed

text \<open>
  Claim C5. With a capacity of at least 8 bytes, \<^verbatim>\<open>csp_sfp_send\<close> returns
  \<^verbatim>\<open>CSP_ERR_INVAL\<close> when \<^verbatim>\<open>mtu\<close> is 0 or exceeds the capacity minus 8, and then the world
  is as it was: no packet has been taken from the pool, none has been sent. For any other
  \<^verbatim>\<open>mtu\<close> the call is the loop started at count 0, and the loop never returns
  \<^verbatim>\<open>CSP_ERR_INVAL\<close>: the check is made once, before the first fragment.
\<close>

theorem csp_sfp_send_mtu_check:
  assumes "8 \<le> CSP_BUFFER_SIZE b" and "CSP_BUFFER_SIZE b < 2 ^ 64"
  shows "(mtu = 0 \<or> unat mtu > CSP_BUFFER_SIZE b - 8 \<longrightarrow>
            csp_sfp_send b buf user_read totalsize mtu w = Some (CSP_ERR_INVAL, w))
       \<and> (mtu \<noteq> 0 \<and> unat mtu \<le> CSP_BUFFER_SIZE b - 8 \<longrightarrow>
            csp_sfp_send b buf user_read totalsize mtu w = send_loop b buf user_read totalsize mtu 0 w
            \<and> (\<forall>w1. csp_sfp_send b buf user_read totalsize mtu w \<noteq> Some (CSP_ERR_INVAL, w1)))"
proof -
  have room: "(ucast mtu :: size_t) > sfp_room b \<longleftrightarrow> unat mtu > CSP_BUFFER_SIZE b - 8"
    by (simp add: word_less_nat_alt unat_sfp_room [OF assms] unat_ucast_32_64)
  have "send_loop b buf user_read totalsize mtu 0 w \<noteq> Some (CSP_ERR_INVAL, w1)" for w1
    using send_loop_not_inval [of b buf user_read totalsize mtu 0 w "(CSP_ERR_INVAL, w1)"] by auto
  then show ?thesis
    by (auto simp: csp_sfp_send_def room)
qed

theorem csp_sfp_send_mtu_check_witness:
  "8 \<le> CSP_BUFFER_SIZE demo_build \<and> CSP_BUFFER_SIZE demo_build < 2 ^ 64
   \<and> unat (9 :: uint32_t) > CSP_BUFFER_SIZE demo_build - 8
   \<and> csp_sfp_send demo_build (endless_pool 16) (mem_read demo_src) 10 9 demo_world
       = Some (CSP_ERR_INVAL, demo_world)
   \<and> (8 :: uint32_t) \<noteq> 0 \<and> unat (8 :: uint32_t) \<le> CSP_BUFFER_SIZE demo_build - 8
   \<and> csp_sfp_send demo_build (endless_pool 16) (mem_read demo_src) 10 8 demo_world
       \<noteq> Some (CSP_ERR_INVAL, demo_world)"
proof -
  have h: "8 \<le> CSP_BUFFER_SIZE demo_build" "CSP_BUFFER_SIZE demo_build < 2 ^ 64"
    by (simp_all add: demo_build_def)
  have big: "unat (9 :: uint32_t) > CSP_BUFFER_SIZE demo_build - 8"
    by (simp add: demo_build_def)
  have ok: "(8 :: uint32_t) \<noteq> 0" "unat (8 :: uint32_t) \<le> CSP_BUFFER_SIZE demo_build - 8"
    by (simp_all add: demo_build_def)
  from csp_sfp_send_mtu_check [OF h, of 9 "endless_pool 16" "mem_read demo_src" 10 demo_world] big
  have 1: "csp_sfp_send demo_build (endless_pool 16) (mem_read demo_src) 10 9 demo_world
       = Some (CSP_ERR_INVAL, demo_world)"
    by blast
  from csp_sfp_send_mtu_check [OF h, of 8 "endless_pool 16" "mem_read demo_src" 10 demo_world] ok
  have 2: "csp_sfp_send demo_build (endless_pool 16) (mem_read demo_src) 10 8 demo_world
       \<noteq> Some (CSP_ERR_INVAL, demo_world)"
    by blast
  from h big ok 1 2 show ?thesis by blast
qed

text \<open>
  Claim C9. Whenever \<^verbatim>\<open>csp_sfp_send\<close> returns, the packets it has sent all carry the
  fragment flag; if it has sent at least one, the connection's outgoing flags are the old
  ones with the fragment flag OR-ed in, the flag is still set on return, and a packet
  sent on the connection afterwards carries it too. If it has sent none, the flags are
  unchanged.
\<close>

theorem csp_sfp_send_keeps_fragment_flag:
  assumes "csp_sfp_send b buf user_read totalsize mtu w = Some (e, w1)"
  shows "\<exists>new. tx w1 = tx w @ new
      \<and> (\<forall>p \<in> set new. id_flags p AND CSP_FFRAG b = CSP_FFRAG b)
      \<and> idout_flags w1 = (if new = [] then idout_flags w else idout_flags w OR CSP_FFRAG b)
      \<and> (new \<noteq> [] \<longrightarrow> idout_flags w1 AND CSP_FFRAG b = CSP_FFRAG b
            \<and> (\<forall>q. id_flags (last (tx (csp_send q w1))) AND CSP_FFRAG b = CSP_FFRAG b))"
proof (cases "mtu = 0 \<or> (ucast mtu :: size_t) > sfp_room b")
  case True
  with assms have "w1 = w" by (simp add: csp_sfp_send_def)
  then show ?thesis by simp
next
  case False
  with assms have "send_loop b buf user_read totalsize mtu 0 w = Some (e, w1)"
    by (simp add: csp_sfp_send_def)
  from send_loop_flags [OF this] obtain new where new: "tx w1 = tx w @ new"
    "\<forall>p \<in> set new. id_flags p = idout_flags w OR CSP_FFRAG b"
    "idout_flags w1 = (if new = [] then idout_flags w else idout_flags w OR CSP_FFRAG b)"
    by auto
  show ?thesis
    using new by (intro exI [where x = new]) (simp add: or_and_absorb csp_send_def)
qed

lemma demo_send:
  "csp_sfp_send demo_build (endless_pool 16) (mem_read demo_src) 10 4 demo_world
     = Some (CSP_ERR_NONE, demo_sent)"
  by code_simp

theorem csp_sfp_send_keeps_fragment_flag_witness:
  "csp_sfp_send demo_build (endless_pool 16) (mem_read demo_src) 10 4 demo_world
     = Some (CSP_ERR_NONE, demo_sent)
   \<and> length (tx demo_sent) = 3 \<and> tx demo_world = []
   \<and> idout_flags demo_world = 0x01
   \<and> idout_flags demo_sent = 0x01 OR CSP_FFRAG demo_build
   \<and> idout_flags demo_sent AND CSP_FFRAG demo_build = CSP_FFRAG demo_build"
proof -
  from csp_sfp_send_keeps_fragment_flag [OF demo_send]
  obtain new where new: "tx demo_sent = tx demo_world @ new"
    "idout_flags demo_sent = (if new = [] then idout_flags demo_world
       else idout_flags demo_world OR CSP_FFRAG demo_build)"
    "new \<noteq> [] \<longrightarrow> idout_flags demo_sent AND CSP_FFRAG demo_build = CSP_FFRAG demo_build"
    by blast
  have t: "length (tx demo_sent) = 3" "tx demo_world = []" "idout_flags demo_world = 0x01"
    by (simp_all add: demo_sent_def demo_world_def)
  from new(1) t have "new \<noteq> []" by auto
  with new t demo_send show ?thesis by simp
qed

subsection \<open>Transfers of 64 KiB and more\<close>

lemma unat_size0:
  fixes count totalsize :: uint32_t
  assumes "count \<le> totalsize"
  shows "unat (ucast (totalsize - count) :: uint16_t) = (unat totalsize - unat count) mod 65536"
proof -
  have "unat (totalsize - count) = unat totalsize - unat count"
    by (rule unat_sub [OF assms])
  with unat_ucast_32_16 [of "totalsize - count"] show ?thesis by simp
qed

lemma unat_sending_size_le:
  assumes "count \<le> totalsize"
  shows "unat (sending_size totalsize mtu count) \<le> (unat totalsize - unat count) mod 65536"
proof (cases "(ucast (ucast (totalsize - count) :: uint16_t) :: uint32_t) > mtu")
  case True
  then have "unat mtu < unat (ucast (totalsize - count) :: uint16_t)"
    by (simp add: word_less_nat_alt unat_ucast_16_32)
  moreover have "unat (ucast mtu :: uint16_t) \<le> unat mtu"
    by (simp add: unat_ucast_32_16)
  ultimately show ?thesis
    using True by (simp add: sending_size_def Let_def unat_size0 [OF assms])
next
  case False
  then show ?thesis
    by (simp add: sending_size_def Let_def unat_size0 [OF assms])
qed

lemma unat_sending_size:
  assumes "count \<le> totalsize" and "unat totalsize - unat count < 65536"
  shows "unat (sending_size totalsize mtu count) = min (unat mtu) (unat totalsize - unat count)"
proof -
  have s0: "unat (ucast (totalsize - count) :: uint16_t) = unat totalsize - unat count"
    using assms by (simp add: unat_size0)
  show ?thesis
  proof (cases "(ucast (ucast (totalsize - count) :: uint16_t) :: uint32_t) > mtu")
    case True
    then have lt: "unat mtu < unat totalsize - unat count"
      by (simp add: word_less_nat_alt unat_ucast_16_32 s0)
    with assms have "unat (ucast mtu :: uint16_t) = unat mtu"
      by (simp add: unat_ucast_32_16)
    with True lt show ?thesis
      by (simp add: sending_size_def Let_def)
  next
    case False
    then have "\<not> unat mtu < unat totalsize - unat count"
      by (simp add: word_less_nat_alt unat_ucast_16_32 s0)
    with False show ?thesis
      by (simp add: sending_size_def Let_def s0)
  qed
qed

lemma unat_count_advance:
  fixes count totalsize :: uint32_t
  assumes "count \<le> totalsize" and "unat sz \<le> unat totalsize - unat count"
  shows "unat (count + ucast (sz :: uint16_t)) = unat count + unat sz"
proof -
  have "unat count \<le> unat totalsize" using assms by (simp add: word_le_nat_alt)
  moreover have "unat totalsize < 2 ^ 32" using unsigned_less [of totalsize] by simp
  ultimately have "unat count + unat (ucast sz :: uint32_t) < 2 ^ LENGTH(32)"
    using assms by (simp add: unat_ucast_16_32)
  then have "unat (count + ucast sz) = unat count + unat (ucast sz :: uint32_t)"
    by (rule unat_add_lem [THEN iffD1])
  then show ?thesis by (simp only: unat_ucast_16_32)
qed

text \<open>
  With 65536 bytes or more still to send, the pass sends at most the low 16 bits of what
  remains, so 65536 bytes or more remain after it.
\<close>

lemma remaining_stays_large:
  fixes r s :: nat
  assumes "65536 \<le> r" and "s \<le> r mod 65536"
  shows "65536 \<le> r - s"
proof -
  have "r = 65536 * (r div 65536) + r mod 65536" by simp
  moreover have "1 \<le> r div 65536" using assms(1) by (simp add: div_greater_zero_iff)
  ultimately show ?thesis using assms(2) by linarith
qed

lemma send_fragment_goes_on:
  assumes "pool_never_empty buf" and "read_returns_size user_read"
  shows "\<exists>w1. send_fragment b buf user_read totalsize mtu count w
            = Inr (count + ucast (sending_size totalsize mtu count), w1)"
proof -
  obtain r pool1 where g: "csp_buffer_get buf (pool w) = (r, pool1)"
    by (cases "csp_buffer_get buf (pool w)")
  with assms(1) obtain packet where g': "csp_buffer_get buf (pool w) = (Some packet, pool1)"
    by (cases r) (auto simp: pool_never_empty_def dest: spec [where x = "pool w"])
  obtain n filled user1 where
    u: "user_read (user_data w) (data_pkt packet) count (sending_size totalsize mtu count) = (n, filled, user1)"
    by (cases "user_read (user_data w) (data_pkt packet) count (sending_size totalsize mtu count)")
  have "fst (user_read (user_data w) (data_pkt packet) count (sending_size totalsize mtu count))
      = sending_size totalsize mtu count"
    using assms(2) unfolding read_returns_size_def by blast
  with u have u': "user_read (user_data w) (data_pkt packet) count (sending_size totalsize mtu count)
     = (sending_size totalsize mtu count, filled, user1)" by simp
  have "send_fragment b buf user_read totalsize mtu count w =
     Inr (count + ucast (sending_size totalsize mtu count),
          w\<lparr>pool := pool1, user_data := user1,
            idout_flags := idout_flags w OR CSP_FFRAG b,
            tx := tx w @
              [packet\<lparr>data_pkt :=
                        store_bytes
                          (store_bytes filled (unat (sending_size totalsize mtu count) + 4)
                             (be32_bytes totalsize))
                          (unat (sending_size totalsize mtu count)) (be32_bytes count),
                      length_pkt := sending_size totalsize mtu count + 8,
                      id_flags := idout_flags w OR CSP_FFRAG b\<rparr>]\<rparr>)"
    using g' u' by (rule send_fragment_sent)
  then show ?thesis by (rule exI)
qed

lemma send_loop_stuck:
  "send_loop b buf user_read totalsize mtu count w = Some r \<Longrightarrow>
   pool_never_empty buf \<Longrightarrow> read_returns_size user_read \<Longrightarrow>
   unat count + 65536 \<le> unat totalsize \<Longrightarrow> False"
proof (induction rule: send_loop_induct)
  case (step f b buf user_read totalsize mtu count w r)
  from step.prems(3) have lt: "count < totalsize" and le: "count \<le> totalsize"
    by (simp_all add: word_less_nat_alt word_le_nat_alt)
  let ?sz = "sending_size totalsize mtu count"
  from send_fragment_goes_on [OF step.prems(1,2)] obtain w1 where
    sf: "send_fragment b buf user_read totalsize mtu count w = Inr (count + ucast ?sz, w1)"
    by blast
  with lt step.hyps have "f b buf user_read totalsize mtu (count + ucast ?sz) w1 = Some r"
    by simp
  moreover have "unat (count + ucast ?sz) + 65536 \<le> unat totalsize"
  proof -
    have s: "unat ?sz \<le> (unat totalsize - unat count) mod 65536"
      by (rule unat_sending_size_le [OF le])
    have big: "65536 \<le> unat totalsize - unat count"
      using step.prems(3) by simp
    have "unat ?sz \<le> unat totalsize - unat count"
      using s by (meson le_trans mod_less_eq_dividend)
    then have "unat (count + ucast ?sz) = unat count + unat ?sz"
      by (rule unat_count_advance [OF le])
    moreover have "65536 \<le> unat totalsize - unat count - unat ?sz"
      using remaining_stays_large [OF big s] .
    ultimately show ?thesis by simp
  qed
  ultimately show False
    using step.IH step.prems(1,2) by blast
qed

text \<open>
  Claim C3 does not hold of the code. With 65536 bytes or more to send, a valid \<^verbatim>\<open>mtu\<close>, a
  pool that never runs dry and a read capability that always returns the size asked for,
  \<^verbatim>\<open>csp_sfp_send\<close> never returns: once the low 16 bits of what remains are 0 the
  16-bit \<^verbatim>\<open>size\<close> is 0, and \<^verbatim>\<open>count\<close> stops advancing.
\<close>

theorem csp_sfp_send_never_returns:
  assumes "8 \<le> CSP_BUFFER_SIZE b" and "CSP_BUFFER_SIZE b < 2 ^ 64"
    and "mtu \<noteq> 0" and "unat mtu \<le> CSP_BUFFER_SIZE b - 8"
    and "pool_never_empty buf" and "read_returns_size user_read"
    and "65536 \<le> unat totalsize"
  shows "csp_sfp_send b buf user_read totalsize mtu w = None"
proof -
  have room: "\<not> (ucast mtu :: size_t) > sfp_room b"
    using assms(4) by (simp add: word_less_nat_alt unat_sfp_room [OF assms(1,2)] unat_ucast_32_64)
  have "send_loop b buf user_read totalsize mtu 0 w \<noteq> Some r" for r
    using send_loop_stuck [of b buf user_read totalsize mtu 0 w r] assms(5,6,7) by auto
  then have "send_loop b buf user_read totalsize mtu 0 w = None"
    by (rule_tac ccontr) auto
  with room assms(3) show ?thesis
    by (simp add: csp_sfp_send_def)
qed

lemma pool_never_empty_endless: "pool_never_empty (endless_pool n)"
  by (simp add: pool_never_empty_def endless_pool_def)

lemma read_returns_size_zero: "read_returns_size zero_read"
  by (simp add: read_returns_size_def zero_read_def)

lemma read_returns_size_mem: "read_returns_size (mem_read src)"
  by (simp add: read_returns_size_def mem_read_def)

theorem csp_sfp_send_never_returns_witness:
  "8 \<le> CSP_BUFFER_SIZE demo_build \<and> CSP_BUFFER_SIZE demo_build < 2 ^ 64
   \<and> (4 :: uint32_t) \<noteq> 0 \<and> unat (4 :: uint32_t) \<le> CSP_BUFFER_SIZE demo_build - 8
   \<and> pool_never_empty (endless_pool 16) \<and> read_returns_size (zero_read :: unit csp_sfp_read_t)
   \<and> 65536 \<le> unat (65536 :: uint32_t)
   \<and> csp_sfp_send demo_build (endless_pool 16) zero_read 65536 4 demo_world = None"
proof -
  have h: "8 \<le> CSP_BUFFER_SIZE demo_build" "CSP_BUFFER_SIZE demo_build < 2 ^ 64"
    "(4 :: uint32_t) \<noteq> 0" "unat (4 :: uint32_t) \<le> CSP_BUFFER_SIZE demo_build - 8"
    "65536 \<le> unat (65536 :: uint32_t)"
    by (simp_all add: demo_build_def)
  have r: "read_returns_size (zero_read :: unit csp_sfp_read_t)"
    by (rule read_returns_size_zero)
  from csp_sfp_send_never_returns [OF h(1-4) pool_never_empty_endless r h(5), where w = demo_world]
    h pool_never_empty_endless [of 16] r
  show ?thesis by blast
qed

text \<open>
  Claim C2 does not hold of the code. Sending 65537 bytes with an \<^verbatim>\<open>mtu\<close> of 4, the first
  pass of the loop sends a fragment with 1 byte of payload (a packet length of 1 + 8)
  although it is not the last, and the call never returns, so the fragments are not
  the 16385 that the claim counts.
\<close>

theorem csp_sfp_send_short_fragment_then_stuck:
  "(\<exists>w1. send_fragment demo_build (endless_pool 16) zero_read 65537 4 0 demo_world
           = Inr (1, w1)
        \<and> map length_pkt (tx w1) = [1 + 8])
   \<and> csp_sfp_send demo_build (endless_pool 16) zero_read 65537 4 demo_world = None"
proof -
  have "send_fragment demo_build (endless_pool 16) zero_read 65537 4 0 demo_world
      = Inr (1, \<lparr>idout_flags = 0x11, tx = [\<lparr>id_flags = 0x11, length_pkt = 9,
           data_pkt = [0, 0, 0, 0, 0, 0, 1, 0, 1, 0, 0, 0, 0, 0, 0, 0]\<rparr>],
           rx = [], user_data = (), pool = (), return_datasize = 77\<rparr>)"
    by code_simp
  then have 1: "\<exists>w1. send_fragment demo_build (endless_pool 16) zero_read 65537 4 0 demo_world
           = Inr (1, w1) \<and> map length_pkt (tx w1) = [1 + 8]"
    by simp
  have "send_loop demo_build (endless_pool 16) zero_read 65537 4 0 demo_world \<noteq> Some r" for r
    using send_loop_stuck [of demo_build "endless_pool 16" zero_read 65537 4 0 demo_world r]
      pool_never_empty_endless [of 16] read_returns_size_zero
    by auto
  then have "send_loop demo_build (endless_pool 16) zero_read 65537 4 0 demo_world = None"
    by (rule_tac ccontr) auto
  then have 2: "csp_sfp_send demo_build (endless_pool 16) zero_read 65537 4 demo_world = None"
    by (simp add: csp_sfp_send_def sfp_room_def demo_build_def sizeof_sfp_header_t_def)
  from 1 2 show ?thesis by (rule conjI)
qed

section \<open>Receiving\<close>

subsection \<open>One fragment\<close>

text \<open>What one pass of the receive loop can do.\<close>

lemma recv_fragment_cases:
  obtains (bad_trailer) packet1 where
      "csp_sfp_header_remove b packet = (None, packet1)"
      "recv_fragment b buf user_write datasize data_offset packet w
         = Inl (CSP_ERR_SFP, w\<lparr>pool := csp_buffer_free buf packet1 (pool w)\<rparr>)"
  | (rejected) h packet1 where
      "csp_sfp_header_remove b packet = (Some h, packet1)"
      "sfp_offset h \<noteq> data_offset \<or> length_pkt packet1 = 0
         \<or> (ucast (length_pkt packet1) :: size_t) > sfp_room b"
      "recv_fragment b buf user_write datasize data_offset packet w
         = Inl (CSP_ERR_SFP, w\<lparr>pool := csp_buffer_free buf packet1 (pool w)\<rparr>)"
  | (zero_total) h packet1 where
      "csp_sfp_header_remove b packet = (Some h, packet1)"
      "sfp_offset h = data_offset" "length_pkt packet1 \<noteq> 0"
      "\<not> (ucast (length_pkt packet1) :: size_t) > sfp_room b"
      "datasize = 0" "sfp_totalsize h = 0"
      "recv_fragment b buf user_write datasize data_offset packet w
         = Inl (CSP_ERR_SFP, w\<lparr>pool := csp_buffer_free buf packet1 (pool w)\<rparr>)"
  | (short_write) h packet1 n user1 where
      "csp_sfp_header_remove b packet = (Some h, packet1)"
      "sfp_offset h = data_offset" "length_pkt packet1 \<noteq> 0"
      "\<not> (ucast (length_pkt packet1) :: size_t) > sfp_room b"
      "(if datasize = 0 then sfp_totalsize h else datasize) \<noteq> 0"
      "user_write (user_data w) (data_pkt packet1) data_offset (length_pkt packet1) (sfp_totalsize h)
         = (n, user1)"
      "n \<noteq> length_pkt packet1"
      "recv_fragment b buf user_write datasize data_offset packet w
         = Inl (CSP_ERR_SFP, w\<lparr>user_data := user1, pool := csp_buffer_free buf packet1 (pool w)\<rparr>)"
  | (complete) h packet1 user1 where
      "csp_sfp_header_remove b packet = (Some h, packet1)"
      "sfp_offset h = data_offset" "length_pkt packet1 \<noteq> 0"
      "\<not> (ucast (length_pkt packet1) :: size_t) > sfp_room b"
      "(if datasize = 0 then sfp_totalsize h else datasize) \<noteq> 0"
      "user_write (user_data w) (data_pkt packet1) data_offset (length_pkt packet1) (sfp_totalsize h)
         = (length_pkt packet1, user1)"
      "data_offset + ucast (length_pkt packet1) \<ge> (if datasize = 0 then sfp_totalsize h else datasize)"
      "recv_fragment b buf user_write datasize data_offset packet w
         = Inl (CSP_ERR_NONE, w\<lparr>user_data := user1, pool := csp_buffer_free buf packet1 (pool w),
                  return_datasize := (if datasize = 0 then sfp_totalsize h else datasize)\<rparr>)"
  | (more) h packet1 user1 where
      "csp_sfp_header_remove b packet = (Some h, packet1)"
      "sfp_offset h = data_offset" "length_pkt packet1 \<noteq> 0"
      "\<not> (ucast (length_pkt packet1) :: size_t) > sfp_room b"
      "(if datasize = 0 then sfp_totalsize h else datasize) \<noteq> 0"
      "user_write (user_data w) (data_pkt packet1) data_offset (length_pkt packet1) (sfp_totalsize h)
         = (length_pkt packet1, user1)"
      "\<not> data_offset + ucast (length_pkt packet1) \<ge> (if datasize = 0 then sfp_totalsize h else datasize)"
      "recv_fragment b buf user_write datasize data_offset packet w
         = Inr (if datasize = 0 then sfp_totalsize h else datasize,
                data_offset + ucast (length_pkt packet1),
                w\<lparr>user_data := user1, pool := csp_buffer_free buf packet1 (pool w)\<rparr>)"
proof -
  obtain r packet1 where hr: "csp_sfp_header_remove b packet = (r, packet1)"
    by (cases "csp_sfp_header_remove b packet")
  show thesis
  proof (cases r)
    case None
    with hr show thesis
      by (intro bad_trailer [of packet1]) (simp_all add: recv_fragment_def)
  next
    case (Some h)
    note hr' = hr [unfolded Some]
    show thesis
    proof (cases "sfp_offset h \<noteq> data_offset \<or> length_pkt packet1 = 0
         \<or> (ucast (length_pkt packet1) :: size_t) > sfp_room b")
      case True
      with hr' show thesis
        by (intro rejected [of h packet1]) (simp_all add: recv_fragment_def)
    next
      case False
      then have ok: "sfp_offset h = data_offset" "length_pkt packet1 \<noteq> 0"
        "\<not> (ucast (length_pkt packet1) :: size_t) > sfp_room b" by auto
      show thesis
      proof (cases "datasize = 0 \<and> sfp_totalsize h = 0")
        case True
        with hr' ok show thesis
          by (intro zero_total [of h packet1]) (simp_all add: recv_fragment_def)
      next
        case nz: False
        then have ds: "(if datasize = 0 then sfp_totalsize h else datasize) \<noteq> 0" by auto
        obtain n user1 where
          uw: "user_write (user_data w) (data_pkt packet1) data_offset (length_pkt packet1) (sfp_totalsize h)
                 = (n, user1)"
          by (cases "user_write (user_data w) (data_pkt packet1) data_offset (length_pkt packet1) (sfp_totalsize h)")
        show thesis
        proof (cases "n = length_pkt packet1")
          case False
          with hr' ok nz uw ds show thesis
            by (intro short_write [of h packet1 n user1])
               (auto simp: recv_fragment_def Let_def)
        next
          case n: True
          show thesis
          proof (cases "data_offset + ucast (length_pkt packet1) \<ge> (if datasize = 0 then sfp_totalsize h else datasize)")
            case True
            with hr' ok nz uw n ds show thesis
              by (intro complete [of h packet1 user1])
                 (auto simp: recv_fragment_def Let_def)
          next
            case False
            with hr' ok nz uw n ds show thesis
              by (intro more [of h packet1 user1])
                 (auto simp: recv_fragment_def Let_def)
          qed
        qed
      qed
    qed
  qed
qed

subsection \<open>The loop\<close>

lemma recv_loop_exit:
  "recv_fragment b buf user_write datasize data_offset packet w = Inl r \<Longrightarrow>
   recv_loop b buf user_write timeout datasize data_offset packet w = r"
  by (subst recv_loop.simps) simp

lemma recv_loop_timeout:
  "recv_fragment b buf user_write datasize data_offset packet w = Inr (datasize1, data_offset1, w1) \<Longrightarrow>
   rx w1 = [] \<Longrightarrow>
   recv_loop b buf user_write timeout datasize data_offset packet w = (CSP_ERR_TIMEDOUT, w1)"
  by (subst recv_loop.simps) (simp add: csp_read_def)

lemma recv_loop_next:
  "recv_fragment b buf user_write datasize data_offset packet w = Inr (datasize1, data_offset1, w1) \<Longrightarrow>
   rx w1 = packet1 # rest \<Longrightarrow>
   recv_loop b buf user_write timeout datasize data_offset packet w
     = recv_loop b buf user_write timeout datasize1 data_offset1 packet1 (w1\<lparr>rx := rest\<rparr>)"
  by (subst recv_loop.simps) (simp add: csp_read_def)

text \<open>
  Induction over the loop, one case for each way a pass can end and, when the loop goes
  on, for a channel that has a next packet.
\<close>

lemma recv_loop_induct [consumes 0, case_names exit timeout more]:
  assumes exit: "\<And>datasize data_offset packet w r.
      recv_fragment b buf user_write datasize data_offset packet w = Inl r \<Longrightarrow>
      P datasize data_offset packet (w :: ('u, 'b) csp_world)"
    and timeout: "\<And>datasize data_offset packet w datasize1 data_offset1 w1.
      recv_fragment b buf user_write datasize data_offset packet w = Inr (datasize1, data_offset1, w1) \<Longrightarrow>
      rx w1 = [] \<Longrightarrow> P datasize data_offset packet w"
    and more: "\<And>datasize data_offset packet w datasize1 data_offset1 w1 packet1 rest.
      recv_fragment b buf user_write datasize data_offset packet w = Inr (datasize1, data_offset1, w1) \<Longrightarrow>
      rx w1 = packet1 # rest \<Longrightarrow>
      P datasize1 data_offset1 packet1 (w1\<lparr>rx := rest\<rparr>) \<Longrightarrow>
      P datasize data_offset packet w"
  shows "P datasize data_offset packet w"
proof (induction "length (rx w)" arbitrary: datasize data_offset packet w rule: less_induct)
  case less
  show ?case
  proof (cases "recv_fragment b buf user_write datasize data_offset packet w")
    case (Inl r)
    then show ?thesis by (rule exit)
  next
    case (Inr y)
    obtain datasize1 data_offset1 w1 where y: "y = (datasize1, data_offset1, w1)"
      by (cases y)
    note f = Inr [unfolded y]
    have rxeq: "rx w1 = rx w" by (rule recv_fragment_rx [OF f])
    show ?thesis
    proof (cases "rx w1")
      case Nil
      with f show ?thesis by (rule timeout)
    next
      case (Cons packet1 rest)
      have "P datasize1 data_offset1 packet1 (w1\<lparr>rx := rest\<rparr>)"
        by (rule less) (simp add: rxeq [symmetric] Cons)
      with f Cons show ?thesis by (rule more)
    qed
  qed
qed

lemma recv_loop_datasize:
  "(fst (recv_loop b buf user_write timeout datasize data_offset packet w) \<noteq> CSP_ERR_NONE \<longrightarrow>
      return_datasize (snd (recv_loop b buf user_write timeout datasize data_offset packet w))
        = return_datasize w)
   \<and> (fst (recv_loop b buf user_write timeout datasize data_offset packet w) = CSP_ERR_NONE \<longrightarrow>
      (if datasize = 0
       then \<exists>h packet1. csp_sfp_header_remove b packet = (Some h, packet1) \<and> sfp_totalsize h \<noteq> 0
              \<and> return_datasize (snd (recv_loop b buf user_write timeout datasize data_offset packet w))
                   = sfp_totalsize h
       else return_datasize (snd (recv_loop b buf user_write timeout datasize data_offset packet w))
              = datasize))"
proof (induction datasize data_offset packet w rule: recv_loop_induct [where b = b and buf = buf and user_write = user_write])
  case (exit datasize data_offset packet w r)
  note l = recv_loop_exit [OF exit, of timeout]
  show ?case
    by (cases rule: recv_fragment_cases [of b packet buf user_write datasize data_offset w])
       (use exit l in auto)
next
  case (timeout datasize data_offset packet w datasize1 data_offset1 w1)
  note l = recv_loop_timeout [OF timeout, of timeout]
  show ?case
    by (cases rule: recv_fragment_cases [of b packet buf user_write datasize data_offset w])
       (use timeout l in auto)
next
  case (more datasize data_offset packet w datasize1 data_offset1 w1 packet1 rest)
  note l = recv_loop_next [OF more(1,2), of timeout]
  show ?case
    by (cases rule: recv_fragment_cases [of b packet buf user_write datasize data_offset w])
       (use more l in auto)
qed

subsection \<open>The size reported and the fragments rejected\<close>

text \<open>
  Claim C10. \<^verbatim>\<open>csp_sfp_recv_fp\<close> sets \<^verbatim>\<open>*return_datasize\<close> to 0 first, so whatever the cell
  held before the call, it holds 0 after every return other than \<^verbatim>\<open>CSP_ERR_NONE\<close>
  (time-out or protocol violation). On \<^verbatim>\<open>CSP_ERR_NONE\<close> it holds the total size declared
  by the trailer of the first fragment, which is not 0.
\<close>

theorem csp_sfp_recv_fp_datasize:
  assumes "csp_sfp_recv_fp b buf user_write timeout first_packet w = (e, w1)"
  shows "(e \<noteq> CSP_ERR_NONE \<longrightarrow> return_datasize w1 = 0)
       \<and> (e = CSP_ERR_NONE \<longrightarrow>
            (\<exists>packet h packet1.
               (first_packet = Some packet \<or> first_packet = None \<and> rx w \<noteq> [] \<and> packet = hd (rx w))
               \<and> csp_sfp_header_remove b packet = (Some h, packet1)
               \<and> sfp_totalsize h \<noteq> 0 \<and> return_datasize w1 = sfp_totalsize h))"
proof (cases first_packet)
  case (Some packet)
  with assms have r: "recv_loop b buf user_write timeout 0 0 packet (w\<lparr>return_datasize := 0\<rparr>) = (e, w1)"
    by (simp add: csp_sfp_recv_fp_def)
  from recv_loop_datasize [of b buf user_write timeout 0 0 packet "w\<lparr>return_datasize := 0\<rparr>"]
  show ?thesis unfolding r using Some by auto
next
  case None
  show ?thesis
  proof (cases "rx w")
    case Nil
    with None assms show ?thesis
      by (auto simp: csp_sfp_recv_fp_def csp_read_def)
  next
    case (Cons packet rest)
    with None assms have r:
      "recv_loop b buf user_write timeout 0 0 packet (w\<lparr>return_datasize := 0, rx := rest\<rparr>) = (e, w1)"
      by (simp add: csp_sfp_recv_fp_def csp_read_def)
    from recv_loop_datasize [of b buf user_write timeout 0 0 packet "w\<lparr>return_datasize := 0, rx := rest\<rparr>"]
    show ?thesis unfolding r using None Cons by auto
  qed
qed

lemma demo_recv:
  "csp_sfp_recv_fp demo_build (endless_pool 16) mem_write 100 None demo_rx_world
     = (CSP_ERR_NONE, demo_rx_world\<lparr>rx := [], user_data := demo_src, return_datasize := 10\<rparr>)"
  by code_simp

lemma demo_recv_idle:
  "csp_sfp_recv_fp demo_build (endless_pool 16) mem_write 100 None demo_idle_world
     = (CSP_ERR_TIMEDOUT, demo_idle_world\<lparr>return_datasize := 0\<rparr>)"
  by code_simp

theorem csp_sfp_recv_fp_datasize_witness:
  "csp_sfp_recv_fp demo_build (endless_pool 16) mem_write 100 None demo_idle_world
     = (CSP_ERR_TIMEDOUT, demo_idle_world\<lparr>return_datasize := 0\<rparr>)
   \<and> return_datasize demo_idle_world = 77
   \<and> return_datasize (demo_idle_world\<lparr>return_datasize := 0\<rparr>) = 0
   \<and> csp_sfp_recv_fp demo_build (endless_pool 16) mem_write 100 None demo_rx_world
     = (CSP_ERR_NONE, demo_rx_world\<lparr>rx := [], user_data := demo_src, return_datasize := 10\<rparr>)
   \<and> (\<exists>h packet1. csp_sfp_header_remove demo_build (hd (rx demo_rx_world)) = (Some h, packet1)
         \<and> sfp_totalsize h = 10)"
proof -
  from csp_sfp_recv_fp_datasize [OF demo_recv_idle]
  have 1: "return_datasize (demo_idle_world\<lparr>return_datasize := 0\<rparr>) = 0" by simp
  from csp_sfp_recv_fp_datasize [OF demo_recv]
  have 2: "\<exists>h packet1. csp_sfp_header_remove demo_build (hd (rx demo_rx_world)) = (Some h, packet1)
         \<and> sfp_totalsize h = 10"
    by auto
  have 3: "return_datasize demo_idle_world = 77" by (simp add: demo_idle_world_def)
  from 1 2 3 demo_recv demo_recv_idle show ?thesis by blast
qed




subsection \<open>The calls of the write capability\<close>

lemma traced_call:
  assumes "traced user_write ud d off sz tot = (n, ud1)"
  shows "\<exists>user1. ud1 = (user1, snd ud @ [\<lparr>wc_data = take (unat sz) d, wc_offset = off, wc_size = sz,
                                    wc_totalsize = tot, wc_returned = n\<rparr>])"
  using assms by (cases ud) (auto simp: traced_def Let_def split: prod.splits)

lemma recv_loop_write_calls:
  "\<forall>e w1. recv_loop b buf (traced user_write) timeout datasize data_offset packet w = (e, w1) \<longrightarrow>
     (\<exists>new. calls_of w1 = calls_of w @ new
        \<and> writes_follow b data_offset (packet # rx w) new
        \<and> ((\<exists>c \<in> set new. wc_returned c \<noteq> wc_size c) \<longrightarrow> e = CSP_ERR_SFP)
        \<and> (e \<noteq> CSP_ERR_SFP \<longrightarrow> length new + length (rx w1) = Suc (length (rx w)))
        \<and> length (rx w) \<le> length new + length (rx w1))"
proof (induction datasize data_offset packet w
    rule: recv_loop_induct [where b = b and buf = buf and user_write = "traced user_write"])
  case (exit datasize data_offset packet w r)
  note l = recv_loop_exit [OF exit, of timeout]
  show ?case
  proof (intro allI impI)
    fix e w1
    assume "recv_loop b buf (traced user_write) timeout datasize data_offset packet w = (e, w1)"
    with l have r: "r = (e, w1)" by simp
    show "\<exists>new. calls_of w1 = calls_of w @ new
        \<and> writes_follow b data_offset (packet # rx w) new
        \<and> ((\<exists>c \<in> set new. wc_returned c \<noteq> wc_size c) \<longrightarrow> e = CSP_ERR_SFP)
        \<and> (e \<noteq> CSP_ERR_SFP \<longrightarrow> length new + length (rx w1) = Suc (length (rx w)))
        \<and> length (rx w) \<le> length new + length (rx w1)"
    proof (cases rule: recv_fragment_cases [of b packet buf "traced user_write" datasize data_offset w])
      case (bad_trailer packet1)
      with exit r show ?thesis
        by (intro exI [where x = "[]"]) (auto simp: calls_of_def)
    next
      case (rejected h packet1)
      with exit r show ?thesis
        by (intro exI [where x = "[]"]) (auto simp: calls_of_def)
    next
      case (zero_total h packet1)
      with exit r show ?thesis
        by (intro exI [where x = "[]"]) (auto simp: calls_of_def)
    next
      case (short_write h packet1 n user1)
      from traced_call [OF short_write(6)] obtain u1 where
        u1: "user1 = (u1, snd (user_data w) @ [\<lparr>wc_data = take (unat (length_pkt packet1)) (data_pkt packet1),
           wc_offset = data_offset, wc_size = length_pkt packet1,
           wc_totalsize = sfp_totalsize h, wc_returned = n\<rparr>])"
        by blast
      from short_write(8) exit r have e: "e = CSP_ERR_SFP"
        and w1: "w1 = w\<lparr>user_data := user1, pool := csp_buffer_free buf packet1 (pool w)\<rparr>"
        by simp_all
      show ?thesis
        by (intro exI [where x = "[\<lparr>wc_data = take (unat (length_pkt packet1)) (data_pkt packet1),
           wc_offset = data_offset, wc_size = length_pkt packet1,
           wc_totalsize = sfp_totalsize h, wc_returned = n\<rparr>]"])
          (simp add: e w1 u1 calls_of_def short_write(1))
    next
      case (complete h packet1 user1)
      from traced_call [OF complete(6)] obtain u1 where
        u1: "user1 = (u1, snd (user_data w) @ [\<lparr>wc_data = take (unat (length_pkt packet1)) (data_pkt packet1),
           wc_offset = data_offset, wc_size = length_pkt packet1,
           wc_totalsize = sfp_totalsize h, wc_returned = length_pkt packet1\<rparr>])"
        by blast
      from complete(8) exit r have e: "e = CSP_ERR_NONE"
        and w1: "w1 = w\<lparr>user_data := user1, pool := csp_buffer_free buf packet1 (pool w),
                  return_datasize := (if datasize = 0 then sfp_totalsize h else datasize)\<rparr>"
        by simp_all
      show ?thesis
        by (intro exI [where x = "[\<lparr>wc_data = take (unat (length_pkt packet1)) (data_pkt packet1),
           wc_offset = data_offset, wc_size = length_pkt packet1,
           wc_totalsize = sfp_totalsize h, wc_returned = length_pkt packet1\<rparr>]"])
          (simp add: e w1 u1 calls_of_def complete(1))
    next
      case (more h packet1 user1)
      with exit show ?thesis by simp
    qed
  qed
next
  case (timeout datasize data_offset packet w datasize1 data_offset1 w0)
  note l = recv_loop_timeout [OF timeout, of timeout]
  show ?case
  proof (intro allI impI)
    fix e w1
    assume "recv_loop b buf (traced user_write) timeout datasize data_offset packet w = (e, w1)"
    with l have e: "e = CSP_ERR_TIMEDOUT" and w1: "w1 = w0" by simp_all
    have rx0: "rx w0 = rx w" by (rule recv_fragment_rx [OF timeout(1)])
    show "\<exists>new. calls_of w1 = calls_of w @ new
        \<and> writes_follow b data_offset (packet # rx w) new
        \<and> ((\<exists>c \<in> set new. wc_returned c \<noteq> wc_size c) \<longrightarrow> e = CSP_ERR_SFP)
        \<and> (e \<noteq> CSP_ERR_SFP \<longrightarrow> length new + length (rx w1) = Suc (length (rx w)))
        \<and> length (rx w) \<le> length new + length (rx w1)"
    proof (cases rule: recv_fragment_cases [of b packet buf "traced user_write" datasize data_offset w])
      case (more h packet1 user1)
      from traced_call [OF more(6)] obtain u1 where
        u1: "user1 = (u1, snd (user_data w) @ [\<lparr>wc_data = take (unat (length_pkt packet1)) (data_pkt packet1),
           wc_offset = data_offset, wc_size = length_pkt packet1,
           wc_totalsize = sfp_totalsize h, wc_returned = length_pkt packet1\<rparr>])"
        by blast
      from more(8) timeout(1) have w0: "w0 = w\<lparr>user_data := user1, pool := csp_buffer_free buf packet1 (pool w)\<rparr>"
        by simp
      show ?thesis
        by (intro exI [where x = "[\<lparr>wc_data = take (unat (length_pkt packet1)) (data_pkt packet1),
           wc_offset = data_offset, wc_size = length_pkt packet1,
           wc_totalsize = sfp_totalsize h, wc_returned = length_pkt packet1\<rparr>]"])
          (use timeout(2) rx0 in \<open>simp add: e w1 w0 u1 calls_of_def more(1)\<close>)
    qed (use timeout in simp_all)
  qed
next
  case (more datasize data_offset packet w datasize1 data_offset1 w0 packet' rest)
  note l = recv_loop_next [OF more(1,2), of timeout]
  show ?case
  proof (intro allI impI)
    fix e w1
    assume "recv_loop b buf (traced user_write) timeout datasize data_offset packet w = (e, w1)"
    with l have run: "recv_loop b buf (traced user_write) timeout datasize1 data_offset1 packet' (w0\<lparr>rx := rest\<rparr>) = (e, w1)"
      by simp
    from more(3) run obtain new' where new':
      "calls_of w1 = calls_of (w0\<lparr>rx := rest\<rparr>) @ new'"
      "writes_follow b data_offset1 (packet' # rx (w0\<lparr>rx := rest\<rparr>)) new'"
      "(\<exists>c \<in> set new'. wc_returned c \<noteq> wc_size c) \<longrightarrow> e = CSP_ERR_SFP"
      "e \<noteq> CSP_ERR_SFP \<longrightarrow> length new' + length (rx w1) = Suc (length (rx (w0\<lparr>rx := rest\<rparr>)))"
      "length (rx (w0\<lparr>rx := rest\<rparr>)) \<le> length new' + length (rx w1)"
      by blast
    have rx0: "rx w0 = rx w" by (rule recv_fragment_rx [OF more(1)])
    show "\<exists>new. calls_of w1 = calls_of w @ new
        \<and> writes_follow b data_offset (packet # rx w) new
        \<and> ((\<exists>c \<in> set new. wc_returned c \<noteq> wc_size c) \<longrightarrow> e = CSP_ERR_SFP)
        \<and> (e \<noteq> CSP_ERR_SFP \<longrightarrow> length new + length (rx w1) = Suc (length (rx w)))
        \<and> length (rx w) \<le> length new + length (rx w1)"
    proof (cases rule: recv_fragment_cases [of b packet buf "traced user_write" datasize data_offset w])
      case (more h packet1 user1)
      from traced_call [OF more(6)] obtain u1 where
        u1: "user1 = (u1, snd (user_data w) @ [\<lparr>wc_data = take (unat (length_pkt packet1)) (data_pkt packet1),
           wc_offset = data_offset, wc_size = length_pkt packet1,
           wc_totalsize = sfp_totalsize h, wc_returned = length_pkt packet1\<rparr>])"
        by blast
      let ?c = "\<lparr>wc_data = take (unat (length_pkt packet1)) (data_pkt packet1),
           wc_offset = data_offset, wc_size = length_pkt packet1,
           wc_totalsize = sfp_totalsize h, wc_returned = length_pkt packet1\<rparr>"
      from more(8) \<open>recv_fragment b buf (traced user_write) datasize data_offset packet w = Inr (datasize1, data_offset1, w0)\<close>
      have w0: "w0 = w\<lparr>user_data := user1, pool := csp_buffer_free buf packet1 (pool w)\<rparr>"
        and off1: "data_offset1 = data_offset + ucast (length_pkt packet1)"
        by simp_all
      have 1: "calls_of w1 = calls_of w @ (?c # new')"
        using new'(1) by (simp add: calls_of_def w0 u1)
      have 2: "writes_follow b data_offset (packet # rx w) (?c # new')"
        using new'(2) \<open>rx w0 = packet' # rest\<close> rx0 by (simp add: more(1) off1)
      have 3: "(\<exists>c \<in> set (?c # new'). wc_returned c \<noteq> wc_size c) \<longrightarrow> e = CSP_ERR_SFP"
        using new'(3) by simp
      have 4: "e \<noteq> CSP_ERR_SFP \<longrightarrow> length (?c # new') + length (rx w1) = Suc (length (rx w))"
        using new'(4) \<open>rx w0 = packet' # rest\<close> rx0 by simp
      have 5: "length (rx w) \<le> length (?c # new') + length (rx w1)"
        using new'(5) \<open>rx w0 = packet' # rest\<close> rx0 by simp
      from 1 2 3 4 5 show ?thesis by (intro exI [where x = "?c # new'"] conjI)
    qed (use \<open>recv_fragment b buf (traced user_write) datasize data_offset packet w = Inr (datasize1, data_offset1, w0)\<close> in simp_all)
  qed
qed

text \<open>
  Claim C7, as amended. Whatever the write capability, the calls \<^verbatim>\<open>csp_sfp_recv_fp\<close> makes
  to it follow the packets it takes, the first packet first: each call passes the payload
  of its fragment, the running \<^verbatim>\<open>data_offset\<close> (0 at first, then advanced by each payload
  length), the payload length, and as total size the \<^verbatim>\<open>totalsize\<close> of that fragment's own
  trailer. If a call returns anything but the payload length the function returns
  \<^verbatim>\<open>CSP_ERR_SFP\<close>. Every packet the function took has had its call, but for the last one
  when the function returns \<^verbatim>\<open>CSP_ERR_SFP\<close>.
\<close>

theorem csp_sfp_recv_fp_write_calls:
  assumes "csp_sfp_recv_fp b buf (traced user_write) timeout first_packet w = (e, w1)"
  shows "\<exists>new. calls_of w1 = calls_of w @ new
     \<and> writes_follow b 0 (case first_packet of None \<Rightarrow> rx w | Some packet \<Rightarrow> packet # rx w) new
     \<and> ((\<exists>c \<in> set new. wc_returned c \<noteq> wc_size c) \<longrightarrow> e = CSP_ERR_SFP)
     \<and> (e \<noteq> CSP_ERR_SFP \<longrightarrow>
           length new + length (rx w1)
             = length (case first_packet of None \<Rightarrow> rx w | Some packet \<Rightarrow> packet # rx w))
     \<and> length (case first_packet of None \<Rightarrow> rx w | Some packet \<Rightarrow> packet # rx w)
           \<le> Suc (length new + length (rx w1))"
proof (cases first_packet)
  case (Some packet)
  with assms have "recv_loop b buf (traced user_write) timeout 0 0 packet (w\<lparr>return_datasize := 0\<rparr>) = (e, w1)"
    by (simp add: csp_sfp_recv_fp_def)
  with recv_loop_write_calls [of b buf user_write timeout 0 0 packet "w\<lparr>return_datasize := 0\<rparr>"]
  obtain new where "calls_of w1 = calls_of (w\<lparr>return_datasize := 0\<rparr>) @ new"
    "writes_follow b 0 (packet # rx (w\<lparr>return_datasize := 0\<rparr>)) new"
    "(\<exists>c \<in> set new. wc_returned c \<noteq> wc_size c) \<longrightarrow> e = CSP_ERR_SFP"
    "e \<noteq> CSP_ERR_SFP \<longrightarrow> length new + length (rx w1) = Suc (length (rx (w\<lparr>return_datasize := 0\<rparr>)))"
    "length (rx (w\<lparr>return_datasize := 0\<rparr>)) \<le> length new + length (rx w1)"
    by blast
  then show ?thesis
    using Some by (intro exI [where x = new]) (simp add: calls_of_def)
next
  case None
  show ?thesis
  proof (cases "rx w")
    case Nil
    with None assms have "e = CSP_ERR_TIMEDOUT" "w1 = w\<lparr>return_datasize := 0\<rparr>"
      by (simp_all add: csp_sfp_recv_fp_def csp_read_def)
    with None Nil show ?thesis
      by (intro exI [where x = "[]"]) (simp add: calls_of_def)
  next
    case (Cons packet rest)
    with None assms have
      "recv_loop b buf (traced user_write) timeout 0 0 packet (w\<lparr>return_datasize := 0, rx := rest\<rparr>) = (e, w1)"
      by (simp add: csp_sfp_recv_fp_def csp_read_def)
    with recv_loop_write_calls [of b buf user_write timeout 0 0 packet "w\<lparr>return_datasize := 0, rx := rest\<rparr>"]
    obtain new where "calls_of w1 = calls_of (w\<lparr>return_datasize := 0, rx := rest\<rparr>) @ new"
      "writes_follow b 0 (packet # rx (w\<lparr>return_datasize := 0, rx := rest\<rparr>)) new"
      "(\<exists>c \<in> set new. wc_returned c \<noteq> wc_size c) \<longrightarrow> e = CSP_ERR_SFP"
      "e \<noteq> CSP_ERR_SFP \<longrightarrow> length new + length (rx w1) = Suc (length (rx (w\<lparr>return_datasize := 0, rx := rest\<rparr>)))"
      "length (rx (w\<lparr>return_datasize := 0, rx := rest\<rparr>)) \<le> length new + length (rx w1)"
      by blast
    then show ?thesis
      using None Cons by (intro exI [where x = new]) (simp add: calls_of_def)
  qed
qed

lemma demo_mixed_recv:
  "csp_sfp_recv_fp demo_build (endless_pool 16) (traced mem_write) 100 None demo_mixed_world
     = (CSP_ERR_NONE,
        demo_mixed_world\<lparr>rx := [], return_datasize := 10,
          user_data := (demo_src,
            [\<lparr>wc_data = [1, 2, 3, 4], wc_offset = 0, wc_size = 4, wc_totalsize = 10, wc_returned = 4\<rparr>,
             \<lparr>wc_data = [5, 6, 7, 8], wc_offset = 4, wc_size = 4, wc_totalsize = 99, wc_returned = 4\<rparr>,
             \<lparr>wc_data = [9, 10], wc_offset = 8, wc_size = 2, wc_totalsize = 10, wc_returned = 2\<rparr>])\<rparr>)"
  by code_simp

theorem csp_sfp_recv_fp_write_calls_witness:
  "fst (csp_sfp_recv_fp demo_build (endless_pool 16) (traced mem_write) 100 None demo_mixed_world)
     = CSP_ERR_NONE
   \<and> (\<exists>new. calls_of (snd (csp_sfp_recv_fp demo_build (endless_pool 16) (traced mem_write) 100 None
                  demo_mixed_world)) = calls_of demo_mixed_world @ new
         \<and> writes_follow demo_build 0 (rx demo_mixed_world) new
         \<and> length new = 3)"
proof -
  from csp_sfp_recv_fp_write_calls [OF demo_mixed_recv]
  obtain new where new:
    "calls_of (demo_mixed_world\<lparr>rx := [], return_datasize := 10,
          user_data := (demo_src,
            [\<lparr>wc_data = [1, 2, 3, 4], wc_offset = 0, wc_size = 4, wc_totalsize = 10, wc_returned = 4\<rparr>,
             \<lparr>wc_data = [5, 6, 7, 8], wc_offset = 4, wc_size = 4, wc_totalsize = 99, wc_returned = 4\<rparr>,
             \<lparr>wc_data = [9, 10], wc_offset = 8, wc_size = 2, wc_totalsize = 10, wc_returned = 2\<rparr>])\<rparr>)
       = calls_of demo_mixed_world @ new"
    "writes_follow demo_build 0 (rx demo_mixed_world) new"
    "length new + length (rx (demo_mixed_world\<lparr>rx := [], return_datasize := 10,
          user_data := (demo_src,
            [\<lparr>wc_data = [1, 2, 3, 4], wc_offset = 0, wc_size = 4, wc_totalsize = 10, wc_returned = 4\<rparr>,
             \<lparr>wc_data = [5, 6, 7, 8], wc_offset = 4, wc_size = 4, wc_totalsize = 99, wc_returned = 4\<rparr>,
             \<lparr>wc_data = [9, 10], wc_offset = 8, wc_size = 2, wc_totalsize = 10, wc_returned = 2\<rparr>])\<rparr>))
       = length (rx demo_mixed_world)"
    by auto
  have "length (rx demo_mixed_world) = 3" by (simp add: demo_mixed_world_def)
  with new(3) have "length new = 3" by simp
  with new(1,2) show ?thesis
    unfolding demo_mixed_recv by (intro conjI exI [where x = new]) simp_all
qed

text \<open>
  Claim C7 as stated fails: in this accepted transfer the total size fixed from the first
  fragment, which is also the size returned, is 10, and the second call of the write
  capability is passed 99.
\<close>

theorem csp_sfp_recv_fp_write_total_differs:
  "fst (csp_sfp_recv_fp demo_build (endless_pool 16) (traced mem_write) 100 None demo_mixed_world)
     = CSP_ERR_NONE
   \<and> return_datasize (snd (csp_sfp_recv_fp demo_build (endless_pool 16) (traced mem_write) 100 None
         demo_mixed_world)) = 10
   \<and> map wc_totalsize (calls_of (snd (csp_sfp_recv_fp demo_build (endless_pool 16) (traced mem_write)
         100 None demo_mixed_world))) = [10, 99, 10]"
  unfolding demo_mixed_recv by (simp add: calls_of_def)

section \<open>Sending, then receiving\<close>

subsection \<open>What the sender puts on the wire\<close>

lemma sent_packet_ok:
  fixes count totalsize :: uint32_t and sz :: uint16_t
  assumes B: "n + 8 \<le> CSP_BUFFER_SIZE b" "CSP_BUFFER_SIZE b \<le> 65535"
    and f: "length filled = CSP_BUFFER_SIZE b" "take n filled = take n (drop (unat count) src)"
    and n: "unat sz = n"
    and p: "p = packet\<lparr>data_pkt :=
               store_bytes (store_bytes filled (unat sz + 4) (be32_bytes totalsize))
                 (unat sz) (be32_bytes count),
             length_pkt := sz + 8,
             id_flags := fl OR CSP_FFRAG b\<rparr>"
  shows "id_flags p AND CSP_FFRAG b = CSP_FFRAG b"
    and "unat (length_pkt p) = n + 8"
    and "length (data_pkt p) = CSP_BUFFER_SIZE b"
    and "take n (data_pkt p) = take n (drop (unat count) src)"
    and "load_bytes (data_pkt p) n 4 = be32_bytes count"
    and "load_bytes (data_pkt p) (n + 4) 4 = be32_bytes totalsize"
proof -
  let ?d1 = "store_bytes filled (n + 4) (be32_bytes totalsize)"
  let ?d2 = "store_bytes ?d1 n (be32_bytes count)"
  have l1: "length ?d1 = CSP_BUFFER_SIZE b"
    using B f(1) by (simp add: length_store_bytes)
  have l2: "length ?d2 = CSP_BUFFER_SIZE b"
    using B l1 by (simp add: length_store_bytes)
  have dp: "data_pkt p = ?d2" using p n by simp
  show "id_flags p AND CSP_FFRAG b = CSP_FFRAG b"
    using p by (simp add: or_and_absorb)
  show "unat (length_pkt p) = n + 8"
  proof -
    have "unat sz + unat (8 :: uint16_t) < 2 ^ LENGTH(16)"
      using B n by simp
    then have "unat (sz + 8) = unat sz + unat (8 :: uint16_t)"
      by (rule unat_add_lem [THEN iffD1])
    then show ?thesis using p n by simp
  qed
  show "length (data_pkt p) = CSP_BUFFER_SIZE b"
    using dp l2 by simp
  show "take n (data_pkt p) = take n (drop (unat count) src)"
  proof -
    have "take n ?d2 = take n ?d1"
      using B l1 by (intro take_store_before) simp_all
    also have "\<dots> = take n filled"
      using B f(1) by (intro take_store_before) simp_all
    finally show ?thesis using dp f(2) by simp
  qed
  show "load_bytes (data_pkt p) n 4 = be32_bytes count"
  proof -
    have "load_bytes ?d2 n (length (be32_bytes count)) = be32_bytes count"
      using B l1 by (intro load_store_same) simp
    then show ?thesis using dp by simp
  qed
  show "load_bytes (data_pkt p) (n + 4) 4 = be32_bytes totalsize"
  proof -
    have 1: "load_bytes ?d2 (n + 4) 4 = load_bytes ?d1 (n + 4) 4"
      using B l1 by (intro load_store_after) simp_all
    have 2: "load_bytes ?d1 (n + 4) (length (be32_bytes totalsize)) = be32_bytes totalsize"
      using B f(1) by (intro load_store_same) simp
    from 1 2 show ?thesis using dp by simp
  qed
qed

lemma send_loop_wire:
  fixes count totalsize mtu :: uint32_t
  assumes b: "build_ok b" and mtu: "mtu \<noteq> 0" "unat mtu \<le> CSP_BUFFER_SIZE b - 8"
    and pool: "pool_hands_out b buf" and rd: "reads_from src user_read"
    and small: "unat totalsize < 65536" and src: "length src = unat totalsize"
    and le: "count \<le> totalsize"
  shows "\<exists>ws new. send_loop b buf user_read totalsize mtu count w = Some (CSP_ERR_NONE, ws)
           \<and> tx ws = tx w @ new
           \<and> wire_ok b src (unat totalsize) (unat mtu) (unat count) new"
  using le
proof (induction "unat totalsize - unat count" arbitrary: count w rule: less_induct)
  case less
  note le = less.prems
  show ?case
  proof (cases "count < totalsize")
    case False
    with le have "count = totalsize" by simp
    with False show ?thesis
      by (intro exI [where x = w] exI [where x = "[]"]) (simp add: send_loop_done)
  next
    case True
    let ?sz = "sending_size totalsize mtu count"
    let ?n = "min (unat mtu) (unat totalsize - unat count)"
    have lt: "unat count < unat totalsize" using True by (simp add: word_less_nat_alt)
    have B: "8 \<le> CSP_BUFFER_SIZE b" "CSP_BUFFER_SIZE b \<le> 65535"
      using b by (simp_all add: build_ok_def)
    have n: "unat ?sz = ?n"
      using le small by (intro unat_sending_size) simp_all
    have mtu0: "0 < unat mtu" using mtu(1) by (simp add: unat_gt_0)
    have n0: "0 < ?n" using mtu0 lt by simp
    have nB: "?n + 8 \<le> CSP_BUFFER_SIZE b" using mtu(2) B by simp
    have nsrc: "unat count + ?n \<le> length src" using src lt by simp
    from pool obtain packet pool1 where
      g: "csp_buffer_get buf (pool w) = (Some packet, pool1)"
      and d: "length (data_pkt packet) = CSP_BUFFER_SIZE b"
      unfolding pool_hands_out_def by blast
    have "unat count + unat ?sz \<le> length src \<and> unat ?sz \<le> length (data_pkt packet)"
      using nsrc nB d n by simp
    with rd obtain filled user1 where
      u: "user_read (user_data w) (data_pkt packet) count ?sz = (?sz, filled, user1)"
      and fl: "length filled = length (data_pkt packet)"
      and ft: "take (unat ?sz) filled = take (unat ?sz) (drop (unat count) src)"
      unfolding reads_from_def by blast
    let ?p = "packet\<lparr>data_pkt :=
               store_bytes (store_bytes filled (unat ?sz + 4) (be32_bytes totalsize))
                 (unat ?sz) (be32_bytes count),
             length_pkt := ?sz + 8,
             id_flags := idout_flags w OR CSP_FFRAG b\<rparr>"
    let ?w1 = "w\<lparr>pool := pool1, user_data := user1,
            idout_flags := idout_flags w OR CSP_FFRAG b, tx := tx w @ [?p]\<rparr>"
    have sf: "send_fragment b buf user_read totalsize mtu count w = Inr (count + ucast ?sz, ?w1)"
      using g u by (rule send_fragment_sent)
    have adv: "unat (count + ucast ?sz) = unat count + ?n"
      using le n by (subst unat_count_advance [where totalsize = totalsize]) simp_all
    have le1: "count + ucast ?sz \<le> totalsize"
      using adv lt by (simp add: word_le_nat_alt)
    have "unat totalsize - unat (count + ucast ?sz) < unat totalsize - unat count"
      using adv n0 lt by simp
    from less.hyps [OF this le1, of ?w1] obtain ws new where
      run: "send_loop b buf user_read totalsize mtu (count + ucast ?sz) ?w1 = Some (CSP_ERR_NONE, ws)"
      and txs: "tx ws = tx ?w1 @ new"
      and wire: "wire_ok b src (unat totalsize) (unat mtu) (unat (count + ucast ?sz)) new"
      by blast
    have 1: "send_loop b buf user_read totalsize mtu count w = Some (CSP_ERR_NONE, ws)"
      using send_loop_next [OF True sf] run by simp
    have 2: "tx ws = tx w @ (?p # new)" using txs by simp
    note ok = sent_packet_ok [OF nB B(2) fl [unfolded d] ft [unfolded n] n refl,
        where totalsize = totalsize and packet = packet and fl = "idout_flags w"]
    have 3: "wire_ok b src (unat totalsize) (unat mtu) (unat count) (?p # new)"
      using lt wire ok unfolding adv wire_ok.simps Let_def by simp
    from 1 2 3 show ?thesis by blast
  qed
qed

lemma reads_from_mem: "reads_from src (mem_read src :: 'u csp_sfp_read_t)"
  unfolding reads_from_def
proof (intro allI impI)
  fix user :: 'u and d :: "uint8_t list" and off :: uint32_t and sz :: uint16_t
  assume a: "unat off + unat sz \<le> length src \<and> unat sz \<le> length d"
  then have l: "length (load_bytes src (unat off) (unat sz)) = unat sz"
    by (simp add: length_load_bytes)
  have "length (store_bytes d 0 (load_bytes src (unat off) (unat sz))) = length d"
    using a l by (simp add: length_store_bytes)
  moreover have "take (unat sz) (store_bytes d 0 (load_bytes src (unat off) (unat sz)))
      = take (unat sz) (drop (unat off) src)"
    using l by (simp add: store_bytes_def) (simp add: load_bytes_def)
  ultimately show "\<exists>filled user1. mem_read src user d off sz = (sz, filled, user1)
            \<and> length filled = length d
            \<and> take (unat sz) filled = take (unat sz) (drop (unat off) src)"
    by (simp add: mem_read_def)
qed

subsection \<open>What the receiver makes of it\<close>

lemma csp_sfp_header_remove_payload:
  assumes "id_flags p AND CSP_FFRAG b \<noteq> 0" and "unat (length_pkt p) = n + 8"
    and "n + 8 \<le> length (data_pkt p)"
  shows "unat (length_pkt (snd (csp_sfp_header_remove b p))) = n"
    and "take n (data_pkt (snd (csp_sfp_header_remove b p))) = take n (data_pkt p)"
proof -
  have len8: "\<not> unat (length_pkt p) < 8" using assms(2) by simp
  obtain x y where dp: "data_pkt (snd (csp_sfp_header_remove b p))
      = store_bytes (store_bytes (data_pkt p) n x) (n + 4) y" and xy: "length x = 4" "length y = 4"
    using assms(1,2) len8
    by (simp add: csp_sfp_header_remove_def sizeof_sfp_header_t_def Let_def)
  have lp: "length_pkt (snd (csp_sfp_header_remove b p)) = length_pkt p - 8"
    using assms(1) len8
    by (simp add: csp_sfp_header_remove_def sizeof_sfp_header_t_def Let_def)
  show "unat (length_pkt (snd (csp_sfp_header_remove b p))) = n"
  proof -
    have "(8 :: uint16_t) \<le> length_pkt p"
      using assms(2) by (simp add: word_le_nat_alt)
    then have "unat (length_pkt p - 8) = unat (length_pkt p) - unat (8 :: uint16_t)"
      by (rule unat_sub)
    with lp assms(2) show ?thesis by simp
  qed
  show "take n (data_pkt (snd (csp_sfp_header_remove b p))) = take n (data_pkt p)"
  proof -
    have l1: "length (store_bytes (data_pkt p) n x) = length (data_pkt p)"
      using assms(3) xy by (simp add: length_store_bytes)
    have "take n (store_bytes (store_bytes (data_pkt p) n x) (n + 4) y) = take n (store_bytes (data_pkt p) n x)"
      using assms(3) l1 by (intro take_store_before) simp_all
    also have "\<dots> = take n (data_pkt p)"
      using assms(3) by (intro take_store_before) simp_all
    finally show ?thesis using dp by simp
  qed
qed

lemma csp_sfp_header_remove_wire:
  assumes "id_flags p AND CSP_FFRAG b \<noteq> 0" and "unat (length_pkt p) = n + 8"
    and "n + 8 \<le> length (data_pkt p)"
    and "load_bytes (data_pkt p) n 4 = be32_bytes off"
    and "load_bytes (data_pkt p) (n + 4) 4 = be32_bytes tot"
    and "off \<le> tot"
  shows "fst (csp_sfp_header_remove b p) = Some \<lparr>sfp_offset = off, sfp_totalsize = tot\<rparr>"
proof -
  have 8: "8 \<le> unat (length_pkt p)" and le: "unat (length_pkt p) \<le> length (data_pkt p)"
    using assms(2,3) by simp_all
  have e: "unat (length_pkt p) - 8 = n" "unat (length_pkt p) - 4 = n + 4"
    using assms(2) by simp_all
  show ?thesis
    using assms(6)
    by (simp add: csp_sfp_header_remove_read [OF assms(1) 8 le] e assms(4,5) Let_def)
qed

lemma recv_fragment_accept:
  assumes "csp_sfp_header_remove b packet = (Some h, packet1)"
    and "sfp_offset h = data_offset" and "length_pkt packet1 \<noteq> 0"
    and "\<not> (ucast (length_pkt packet1) :: size_t) > sfp_room b"
    and "sfp_totalsize h \<noteq> 0" and "datasize = 0 \<or> datasize = sfp_totalsize h"
    and "user_write (user_data w) (data_pkt packet1) data_offset (length_pkt packet1) (sfp_totalsize h)
           = (length_pkt packet1, user1)"
  shows "recv_fragment b buf user_write datasize data_offset packet w =
     (if data_offset + ucast (length_pkt packet1) \<ge> sfp_totalsize h
      then Inl (CSP_ERR_NONE, w\<lparr>user_data := user1, pool := csp_buffer_free buf packet1 (pool w),
                  return_datasize := sfp_totalsize h\<rparr>)
      else Inr (sfp_totalsize h, data_offset + ucast (length_pkt packet1),
                w\<lparr>user_data := user1, pool := csp_buffer_free buf packet1 (pool w)\<rparr>))"
  using assms by (auto simp: recv_fragment_def Let_def)

lemma store_prefix:
  assumes "length mem = T" and "length src = T" and "count + n \<le> T"
    and "take count mem = take count src"
  shows "length (store_bytes mem count (take n (drop count src))) = T"
    and "take (count + n) (store_bytes mem count (take n (drop count src))) = take (count + n) src"
proof -
  have l: "length (take n (drop count src)) = n" using assms(2,3) by simp
  show "length (store_bytes mem count (take n (drop count src))) = T"
    using assms(1,3) l by (simp add: length_store_bytes)
  have "take (count + n) (store_bytes mem count (take n (drop count src)))
      = take count mem @ take n (drop count src)"
    using assms(1,3) l by (simp add: store_bytes_def)
  also have "\<dots> = take (count + n) src"
    using assms(4) by (simp add: take_add)
  finally show "take (count + n) (store_bytes mem count (take n (drop count src))) = take (count + n) src" .
qed

text \<open>One pass of the receive loop on a fragment as the sender puts it on the wire.\<close>

lemma recv_fragment_wire:
  fixes totalsize :: uint32_t and w :: "('u, 'b) csp_world"
  assumes b: "build_ok b" and m: "0 < m" "m \<le> CSP_BUFFER_SIZE b - 8"
    and wire: "wire_ok b src (unat totalsize) m count (p # ps)"
    and ds: "datasize = 0 \<or> datasize = totalsize"
    and wr: "write_returns_size user_write"
  defines "n \<equiv> min m (unat totalsize - count)"
  defines "p1 \<equiv> snd (csp_sfp_header_remove b p)"
  defines "user1 \<equiv> snd (user_write (user_data w) (data_pkt p1) (of_nat count) (length_pkt p1) totalsize)"
  shows "recv_fragment b buf user_write datasize (of_nat count) p w =
     (if unat totalsize \<le> count + n
      then Inl (CSP_ERR_NONE,
             w\<lparr>user_data := user1, pool := csp_buffer_free buf p1 (pool w),
               return_datasize := totalsize\<rparr>)
      else Inr (totalsize, of_nat (count + n),
             w\<lparr>user_data := user1, pool := csp_buffer_free buf p1 (pool w)\<rparr>))"
    and "unat (length_pkt p1) = n" and "0 < n" and "count + n \<le> unat totalsize"
    and "take n (data_pkt p1) = take n (drop count src)"
    and "unat (of_nat count :: uint32_t) = count"
proof -
  let ?T = "unat totalsize"
  have B: "8 \<le> CSP_BUFFER_SIZE b" "CSP_BUFFER_SIZE b \<le> 65535" and F: "CSP_FFRAG b \<noteq> 0"
    using b by (simp_all add: build_ok_def)
  have B64: "CSP_BUFFER_SIZE b < 2 ^ 64" using B(2) by simp
  from wire have lt: "count < ?T"
    and fl: "id_flags p AND CSP_FFRAG b = CSP_FFRAG b"
    and len: "unat (length_pkt p) = n + 8"
    and dl: "length (data_pkt p) = CSP_BUFFER_SIZE b"
    and pay: "take n (data_pkt p) = take n (drop count src)"
    and lo: "load_bytes (data_pkt p) n 4 = be32_bytes (of_nat count)"
    and lt': "load_bytes (data_pkt p) (n + 4) 4 = be32_bytes (of_nat ?T)"
    by (simp_all add: n_def Let_def)
  have T32: "?T < 2 ^ 32" using unsigned_less [of totalsize] by simp
  show n0: "0 < n" using m(1) lt by (simp add: n_def)
  have nm: "n \<le> m" by (simp add: n_def)
  have nB: "n + 8 \<le> length (data_pkt p)" using nm m(2) B dl by simp
  show nT: "count + n \<le> ?T" using lt by (simp add: n_def)
  have fl0: "id_flags p AND CSP_FFRAG b \<noteq> 0" using fl F by simp
  show cnt: "unat (of_nat count :: uint32_t) = count"
    using lt T32 by (simp add: unat_of_nat)
  have tot: "(of_nat ?T :: uint32_t) = totalsize" by simp
  have offle: "(of_nat count :: uint32_t) \<le> totalsize"
    using lt cnt by (simp add: word_le_nat_alt)
  have h: "fst (csp_sfp_header_remove b p) = Some \<lparr>sfp_offset = of_nat count, sfp_totalsize = totalsize\<rparr>"
    using csp_sfp_header_remove_wire [OF fl0 len nB lo lt' [unfolded tot] offle] .
  then have hr: "csp_sfp_header_remove b p = (Some \<lparr>sfp_offset = of_nat count, sfp_totalsize = totalsize\<rparr>, p1)"
    by (simp add: prod_eq_iff p1_def)
  show l1: "unat (length_pkt p1) = n"
    using csp_sfp_header_remove_payload [OF fl0 len nB] by (simp add: p1_def)
  have d1: "take n (data_pkt p1) = take n (data_pkt p)"
    using csp_sfp_header_remove_payload [OF fl0 len nB] by (simp add: p1_def)
  show "take n (data_pkt p1) = take n (drop count src)"
    using d1 pay by simp
  have nz: "length_pkt p1 \<noteq> 0" using l1 n0 by (auto simp: unat_eq_0 [symmetric])
  have room: "\<not> (ucast (length_pkt p1) :: size_t) > sfp_room b"
    using nm m(2) by (simp add: word_less_nat_alt unat_sfp_room [OF B(1) B64] unat_ucast_16_64 l1)
  have tnz: "totalsize \<noteq> 0" using lt by (auto simp: unat_eq_0 [symmetric])
  have "fst (user_write (user_data w) (data_pkt p1) (of_nat count) (length_pkt p1) totalsize)
      = length_pkt p1"
    using wr unfolding write_returns_size_def by blast
  then have uw: "user_write (user_data w) (data_pkt p1) (of_nat count) (length_pkt p1) totalsize
      = (length_pkt p1, user1)"
    by (simp add: prod_eq_iff user1_def)
  have adv: "(of_nat count :: uint32_t) + ucast (length_pkt p1) = of_nat (count + n)"
  proof -
    have "(ucast (length_pkt p1) :: uint32_t) = of_nat (unat (length_pkt p1))"
      by simp
    then show ?thesis by (simp add: l1)
  qed
  have cmp: "totalsize \<le> (of_nat (count + n) :: uint32_t) \<longleftrightarrow> ?T \<le> count + n"
  proof -
    have "unat (of_nat (count + n) :: uint32_t) = (count + n) mod 2 ^ LENGTH(32)"
      by (rule unat_of_nat)
    also have "\<dots> = count + n" using nT T32 by simp
    finally show ?thesis by (simp only: word_le_nat_alt)
  qed
  have "recv_fragment b buf user_write datasize (of_nat count) p w =
     (if (of_nat count :: uint32_t) + ucast (length_pkt p1)
           \<ge> sfp_totalsize \<lparr>sfp_offset = of_nat count, sfp_totalsize = totalsize\<rparr>
      then Inl (CSP_ERR_NONE, w\<lparr>user_data := user1,
                  pool := csp_buffer_free buf p1 (pool w),
                  return_datasize := sfp_totalsize \<lparr>sfp_offset = of_nat count, sfp_totalsize = totalsize\<rparr>\<rparr>)
      else Inr (sfp_totalsize \<lparr>sfp_offset = of_nat count, sfp_totalsize = totalsize\<rparr>,
                of_nat count + ucast (length_pkt p1),
                w\<lparr>user_data := user1, pool := csp_buffer_free buf p1 (pool w)\<rparr>))"
    using hr _ nz room _ _ _
  proof (rule recv_fragment_accept)
    show "sfp_offset \<lparr>sfp_offset = of_nat count, sfp_totalsize = totalsize\<rparr> = of_nat count" by simp
    show "sfp_totalsize \<lparr>sfp_offset = of_nat count, sfp_totalsize = totalsize\<rparr> \<noteq> 0"
      using tnz by simp
    show "datasize = 0 \<or> datasize = sfp_totalsize \<lparr>sfp_offset = of_nat count, sfp_totalsize = totalsize\<rparr>"
      using ds by simp
    show "user_write (user_data w) (data_pkt p1) (of_nat count) (length_pkt p1)
        (sfp_totalsize \<lparr>sfp_offset = of_nat count, sfp_totalsize = totalsize\<rparr>)
      = (length_pkt p1, user1)"
      using uw by simp
  qed
  moreover have "(ucast (length_pkt p1) :: uint32_t) = of_nat n"
    using adv by simp
  moreover have "totalsize \<le> (of_nat count :: uint32_t) + of_nat n \<longleftrightarrow> ?T \<le> count + n"
    using cmp by simp
  ultimately show "recv_fragment b buf user_write datasize (of_nat count) p w =
     (if unat totalsize \<le> count + n
      then Inl (CSP_ERR_NONE,
             w\<lparr>user_data := user1, pool := csp_buffer_free buf p1 (pool w),
               return_datasize := totalsize\<rparr>)
      else Inr (totalsize, of_nat (count + n),
             w\<lparr>user_data := user1, pool := csp_buffer_free buf p1 (pool w)\<rparr>))"
    by simp
qed

lemma write_returns_size_traced:
  "write_returns_size user_write \<Longrightarrow> write_returns_size (traced user_write)"
  by (auto simp: write_returns_size_def traced_def Let_def split: prod.splits)
     (metis fst_conv)

lemma traced_accepts:
  assumes "write_returns_size user_write"
  shows "\<exists>u1. snd (traced user_write ud d off sz tot)
           = (u1, snd ud @ [\<lparr>wc_data = take (unat sz) d, wc_offset = off, wc_size = sz,
                               wc_totalsize = tot, wc_returned = sz\<rparr>])"
proof -
  have "fst (traced user_write ud d off sz tot) = sz"
    using write_returns_size_traced [OF assms] unfolding write_returns_size_def by blast
  then have "traced user_write ud d off sz tot = (sz, snd (traced user_write ud d off sz tot))"
    by (simp add: prod_eq_iff)
  from traced_call [OF this] show ?thesis .
qed

lemma write_returns_size_mem: "write_returns_size mem_write"
  by (simp add: write_returns_size_def mem_write_def)

lemma writes_cover_concat:
  "writes_cover src totalsize count cs \<Longrightarrow> concat (map wc_data cs) = drop count src"
proof (induction cs arbitrary: count)
  case Nil
  then show ?case by simp
next
  case (Cons c cs)
  define k where "k = length (wc_data c)"
  from Cons.prems have c: "wc_data c = take k (drop count src)"
    and rest: "writes_cover src totalsize (count + k) cs"
    by (simp_all add: k_def)
  have e: "drop (count + k) src = drop k (drop count src)"
    by (simp add: add.commute)
  have "concat (map wc_data (c # cs)) = wc_data c @ drop (count + k) src"
    using Cons.IH [OF rest] by simp
  also have "\<dots> = take k (drop count src) @ drop k (drop count src)"
    by (simp only: c e)
  also have "\<dots> = drop count src"
    by (rule append_take_drop_id)
  finally show ?case .
qed

lemma recv_loop_wire_traced:
  fixes totalsize :: uint32_t
  assumes b: "build_ok b" and m: "0 < m" "m \<le> CSP_BUFFER_SIZE b - 8"
    and src: "length src = unat totalsize" and wr: "write_returns_size user_write"
  shows "wire_ok b src (unat totalsize) m count (p # ps) \<Longrightarrow>
     datasize = 0 \<or> datasize = totalsize \<Longrightarrow> rx w = ps \<Longrightarrow>
     \<exists>w1 new. recv_loop b buf (traced user_write) timeout datasize (of_nat count) p w
                 = (CSP_ERR_NONE, w1)
        \<and> calls_of w1 = calls_of w @ new \<and> writes_cover src totalsize count new
        \<and> return_datasize w1 = totalsize \<and> rx w1 = []"
proof (induction ps arbitrary: count p w datasize)
  case (Nil count p w datasize)
  let ?n = "min m (unat totalsize - count)"
  let ?p1 = "snd (csp_sfp_header_remove b p)"
  let ?c = "\<lparr>wc_data = take (unat (length_pkt ?p1)) (data_pkt ?p1), wc_offset = of_nat count,
             wc_size = length_pkt ?p1, wc_totalsize = totalsize, wc_returned = length_pkt ?p1\<rparr>"
  note f1 = recv_fragment_wire(1) [OF b m Nil.prems(1,2) write_returns_size_traced [OF wr],
      where buf = buf and w = w]
  note f = recv_fragment_wire(2-6) [OF b m Nil.prems(1,2) write_returns_size_traced [OF wr]]
  from Nil.prems(1) have fin: "count + ?n = unat totalsize"
    by (simp add: Let_def)
  from traced_accepts [OF wr, of "user_data w" "data_pkt ?p1" "of_nat count" "length_pkt ?p1" totalsize]
  obtain u1 where u1: "snd (traced user_write (user_data w) (data_pkt ?p1) (of_nat count)
       (length_pkt ?p1) totalsize) = (u1, snd (user_data w) @ [?c])"
    by blast
  have cov: "writes_cover src totalsize count [?c]"
    using f fin src by simp
  let ?w1 = "w\<lparr>user_data := (u1, snd (user_data w) @ [?c]),
           pool := csp_buffer_free buf ?p1 (pool w), return_datasize := totalsize\<rparr>"
  have 1: "recv_loop b buf (traced user_write) timeout datasize (of_nat count) p w
      = (CSP_ERR_NONE, ?w1)"
    using f1 fin u1 by (intro recv_loop_exit) simp
  have 2: "calls_of ?w1 = calls_of w @ [?c]"
    by (simp add: calls_of_def)
  have 3: "return_datasize ?w1 = totalsize" "rx ?w1 = []"
    using Nil.prems(3) by simp_all
  from 1 2 cov 3 show ?case by blast
next
  case (Cons p' ps' count p w datasize)
  let ?n = "min m (unat totalsize - count)"
  let ?p1 = "snd (csp_sfp_header_remove b p)"
  let ?c = "\<lparr>wc_data = take (unat (length_pkt ?p1)) (data_pkt ?p1), wc_offset = of_nat count,
             wc_size = length_pkt ?p1, wc_totalsize = totalsize, wc_returned = length_pkt ?p1\<rparr>"
  note f1 = recv_fragment_wire(1) [OF b m Cons.prems(1,2) write_returns_size_traced [OF wr],
      where buf = buf and w = w]
  note f = recv_fragment_wire(2-6) [OF b m Cons.prems(1,2) write_returns_size_traced [OF wr]]
  from Cons.prems(1) have rest: "wire_ok b src (unat totalsize) m (count + ?n) (p' # ps')"
    by (simp add: Let_def)
  from rest have more: "count + ?n < unat totalsize" by simp
  from traced_accepts [OF wr, of "user_data w" "data_pkt ?p1" "of_nat count" "length_pkt ?p1" totalsize]
  obtain u1 where u1: "snd (traced user_write (user_data w) (data_pkt ?p1) (of_nat count)
       (length_pkt ?p1) totalsize) = (u1, snd (user_data w) @ [?c])"
    by blast
  let ?w1 = "w\<lparr>user_data := (u1, snd (user_data w) @ [?c]),
               pool := csp_buffer_free buf ?p1 (pool w)\<rparr>"
  have fr: "recv_fragment b buf (traced user_write) datasize (of_nat count) p w =
      Inr (totalsize, of_nat (count + ?n), ?w1)"
    using f1 more u1 by simp
  have rx1: "rx ?w1 = p' # ps'" using Cons.prems(3) by simp
  have "\<exists>w2 new. recv_loop b buf (traced user_write) timeout totalsize (of_nat (count + ?n)) p'
              (?w1\<lparr>rx := ps'\<rparr>) = (CSP_ERR_NONE, w2)
        \<and> calls_of w2 = calls_of (?w1\<lparr>rx := ps'\<rparr>) @ new
        \<and> writes_cover src totalsize (count + ?n) new
        \<and> return_datasize w2 = totalsize \<and> rx w2 = []"
    using rest by (intro Cons.IH) simp_all
  then obtain w2 new where
    run: "recv_loop b buf (traced user_write) timeout totalsize (of_nat (count + ?n)) p'
              (?w1\<lparr>rx := ps'\<rparr>) = (CSP_ERR_NONE, w2)"
    and calls: "calls_of w2 = calls_of (?w1\<lparr>rx := ps'\<rparr>) @ new"
    and cov: "writes_cover src totalsize (count + ?n) new"
    and fin: "return_datasize w2 = totalsize" "rx w2 = []"
    by blast
  have 1: "recv_loop b buf (traced user_write) timeout datasize (of_nat count) p w = (CSP_ERR_NONE, w2)"
    using run unfolding recv_loop_next [OF fr rx1, of timeout] .
  have 2: "calls_of w2 = calls_of w @ (?c # new)"
    using calls by (simp add: calls_of_def)
  have 3: "writes_cover src totalsize count (?c # new)"
    using f cov more src by simp
  from 1 2 3 fin show ?case by blast
qed

lemma recv_loop_wire_mem:
  fixes totalsize :: uint32_t
  assumes b: "build_ok b" and m: "0 < m" "m \<le> CSP_BUFFER_SIZE b - 8"
    and src: "length src = unat totalsize"
  shows "wire_ok b src (unat totalsize) m count (p # ps) \<Longrightarrow>
     datasize = 0 \<or> datasize = totalsize \<Longrightarrow> rx w = ps \<Longrightarrow>
     length (user_data w) = unat totalsize \<Longrightarrow> take count (user_data w) = take count src \<Longrightarrow>
     \<exists>w1. recv_loop b buf mem_write timeout datasize (of_nat count) p w = (CSP_ERR_NONE, w1)
        \<and> user_data w1 = src \<and> return_datasize w1 = totalsize \<and> rx w1 = []"
proof (induction ps arbitrary: count p w datasize)
  case (Nil count p w datasize)
  let ?n = "min m (unat totalsize - count)"
  let ?p1 = "snd (csp_sfp_header_remove b p)"
  let ?U = "store_bytes (user_data w) count (take ?n (drop count src))"
  note f1 = recv_fragment_wire(1) [OF b m Nil.prems(1,2) write_returns_size_mem,
      where buf = buf and w = w]
  note f = recv_fragment_wire(2-6) [OF b m Nil.prems(1,2) write_returns_size_mem]
  have u: "snd (mem_write (user_data w) (data_pkt ?p1) (of_nat count) (length_pkt ?p1) totalsize) = ?U"
    using f by (simp add: mem_write_def)
  from Nil.prems(1) have fin: "count + ?n = unat totalsize"
    by (simp add: Let_def)
  note st = store_prefix [OF Nil.prems(4) src fin [THEN eq_refl] Nil.prems(5)]
  have U: "?U = src"
  proof -
    have "take (unat totalsize) ?U = take (unat totalsize) src"
      using st(2) fin by simp
    then show ?thesis using st(1) src by simp
  qed
  have "recv_fragment b buf mem_write datasize (of_nat count) p w =
      Inl (CSP_ERR_NONE,
             w\<lparr>user_data := ?U, pool := csp_buffer_free buf ?p1 (pool w),
               return_datasize := totalsize\<rparr>)"
    using f1 fin unfolding u by simp
  from recv_loop_exit [OF this, of timeout] show ?case
    using U Nil.prems(3) by simp
next
  case (Cons p' ps' count p w datasize)
  let ?n = "min m (unat totalsize - count)"
  let ?p1 = "snd (csp_sfp_header_remove b p)"
  let ?U = "store_bytes (user_data w) count (take ?n (drop count src))"
  let ?w1 = "w\<lparr>user_data := ?U, pool := csp_buffer_free buf ?p1 (pool w)\<rparr>"
  note f1 = recv_fragment_wire(1) [OF b m Cons.prems(1,2) write_returns_size_mem,
      where buf = buf and w = w]
  note f = recv_fragment_wire(2-6) [OF b m Cons.prems(1,2) write_returns_size_mem]
  have u: "snd (mem_write (user_data w) (data_pkt ?p1) (of_nat count) (length_pkt ?p1) totalsize) = ?U"
    using f by (simp add: mem_write_def)
  from Cons.prems(1) have rest: "wire_ok b src (unat totalsize) m (count + ?n) (p' # ps')"
    by (simp add: Let_def)
  from rest have more: "count + ?n < unat totalsize" by simp
  note st = store_prefix [OF Cons.prems(4) src more [THEN less_imp_le] Cons.prems(5)]
  have fr: "recv_fragment b buf mem_write datasize (of_nat count) p w =
      Inr (totalsize, of_nat (count + ?n), ?w1)"
    using f1 more unfolding u by simp
  have rx1: "rx ?w1 = p' # ps'" using Cons.prems(3) by simp
  have "\<exists>w2. recv_loop b buf mem_write timeout totalsize (of_nat (count + ?n)) p' (?w1\<lparr>rx := ps'\<rparr>)
            = (CSP_ERR_NONE, w2)
        \<and> user_data w2 = src \<and> return_datasize w2 = totalsize \<and> rx w2 = []"
    using rest st by (intro Cons.IH) simp_all
  then show ?case
    unfolding recv_loop_next [OF fr rx1, of timeout] .
qed

subsection \<open>The round trip\<close>

text \<open>
  Claim C1, as amended. In a build whose capacity is between 8 and 65535 bytes, for every
  total size from 1 to 65535 and every \<^verbatim>\<open>mtu\<close> from 1 to the capacity minus 8, with a pool
  that always hands out a packet, a read capability that supplies the bytes \<open>src\<close> and a
  write capability that returns the size it is given: \<^verbatim>\<open>csp_sfp_send\<close> returns
  \<^verbatim>\<open>CSP_ERR_NONE\<close>, and \<^verbatim>\<open>csp_sfp_recv_fp\<close>, run on a channel that holds exactly the
  fragments sent, in order, returns \<^verbatim>\<open>CSP_ERR_NONE\<close> with its datasize output equal to
  the total size and the channel empty, having passed to the write capability the bytes of
  \<open>src\<close>, piece after piece, each at its offset.
\<close>

theorem csp_sfp_round_trip:
  fixes totalsize mtu :: uint32_t
  assumes "build_ok b" and "mtu \<noteq> 0" and "unat mtu \<le> CSP_BUFFER_SIZE b - 8"
    and "pool_hands_out b buf"
    and "0 < unat totalsize" and "unat totalsize < 65536"
    and "length src = unat totalsize"
    and "reads_from src user_read" and "write_returns_size user_write"
  shows "\<exists>ws new. csp_sfp_send b buf user_read totalsize mtu w = Some (CSP_ERR_NONE, ws)
           \<and> tx ws = tx w @ new
           \<and> (\<forall>wr. rx wr = new \<and> calls_of wr = [] \<longrightarrow>
                (\<exists>wr1. csp_sfp_recv_fp b buf' (traced user_write) timeout None wr = (CSP_ERR_NONE, wr1)
                   \<and> return_datasize wr1 = totalsize \<and> rx wr1 = []
                   \<and> writes_cover src totalsize 0 (calls_of wr1)
                   \<and> concat (map wc_data (calls_of wr1)) = src))"
proof -
  have B: "8 \<le> CSP_BUFFER_SIZE b" "CSP_BUFFER_SIZE b < 2 ^ 64"
    using assms(1) by (simp_all add: build_ok_def)
  have room: "\<not> (ucast mtu :: size_t) > sfp_room b"
    using assms(3) by (simp add: word_less_nat_alt unat_sfp_room [OF B] unat_ucast_32_64)
  have send: "csp_sfp_send b buf user_read totalsize mtu w
      = send_loop b buf user_read totalsize mtu 0 w"
    using assms(2) room by (simp add: csp_sfp_send_def)
  from send_loop_wire [OF assms(1,2,3,4,8,6,7), of 0 w] obtain ws new where
    run: "send_loop b buf user_read totalsize mtu 0 w = Some (CSP_ERR_NONE, ws)"
    and txs: "tx ws = tx w @ new"
    and wire: "wire_ok b src (unat totalsize) (unat mtu) 0 new"
    by auto
  from wire assms(5) obtain p ps where new: "new = p # ps"
    by (cases new) auto
  have m0: "0 < unat mtu" using assms(2) by (simp add: unat_gt_0)
  have recv: "\<exists>wr1. csp_sfp_recv_fp b buf' (traced user_write) timeout None wr = (CSP_ERR_NONE, wr1)
                   \<and> return_datasize wr1 = totalsize \<and> rx wr1 = []
                   \<and> writes_cover src totalsize 0 (calls_of wr1)
                   \<and> concat (map wc_data (calls_of wr1)) = src"
    if wr: "rx wr = new" "calls_of wr = []" for wr :: "('c \<times> write_call list, 'd) csp_world"
  proof -
    have "\<exists>wr1 calls. recv_loop b buf' (traced user_write) timeout 0 (of_nat 0) p
               (wr\<lparr>return_datasize := 0, rx := ps\<rparr>) = (CSP_ERR_NONE, wr1)
            \<and> calls_of wr1 = calls_of (wr\<lparr>return_datasize := 0, rx := ps\<rparr>) @ calls
            \<and> writes_cover src totalsize 0 calls
            \<and> return_datasize wr1 = totalsize \<and> rx wr1 = []"
      using wire [unfolded new]
      by (intro recv_loop_wire_traced [OF assms(1) m0 assms(3) assms(7) assms(9)]) simp_all
    then obtain wr1 calls where
      r0: "recv_loop b buf' (traced user_write) timeout 0 (of_nat 0) p
               (wr\<lparr>return_datasize := 0, rx := ps\<rparr>) = (CSP_ERR_NONE, wr1)"
      and c: "calls_of wr1 = calls_of (wr\<lparr>return_datasize := 0, rx := ps\<rparr>) @ calls"
      and cov: "writes_cover src totalsize 0 calls"
      and fin: "return_datasize wr1 = totalsize" "rx wr1 = []"
      by (elim exE conjE)
    from r0 have r: "recv_loop b buf' (traced user_write) timeout 0 0 p
               (wr\<lparr>return_datasize := 0, rx := ps\<rparr>) = (CSP_ERR_NONE, wr1)"
      by simp
    have c': "calls_of wr1 = calls" using c wr(2) by (simp add: calls_of_def)
    have 1: "csp_sfp_recv_fp b buf' (traced user_write) timeout None wr = (CSP_ERR_NONE, wr1)"
      using r wr(1) new by (simp add: csp_sfp_recv_fp_def csp_read_def)
    have 2: "concat (map wc_data (calls_of wr1)) = src"
      using writes_cover_concat [OF cov] c' by simp
    have 3: "writes_cover src totalsize 0 (calls_of wr1)"
      using cov c' by simp
    from 1 fin 3 2 show ?thesis
      by (intro exI [where x = wr1] conjI)
  qed
  have "\<forall>wr. rx wr = new \<and> calls_of wr = [] \<longrightarrow>
                (\<exists>wr1. csp_sfp_recv_fp b buf' (traced user_write) timeout None wr = (CSP_ERR_NONE, wr1)
                   \<and> return_datasize wr1 = totalsize \<and> rx wr1 = []
                   \<and> writes_cover src totalsize 0 (calls_of wr1)
                   \<and> concat (map wc_data (calls_of wr1)) = src)"
    using recv by (intro allI impI) (elim conjE)
  with run txs show ?thesis
    unfolding send by (intro exI [where x = ws] exI [where x = new] conjI)
qed

lemma build_ok_demo: "build_ok demo_build"
  by (simp add: build_ok_def demo_build_def)

lemma pool_hands_out_endless: "pool_hands_out b (endless_pool (CSP_BUFFER_SIZE b))"
  by (simp add: pool_hands_out_def endless_pool_def blank_packet_def)

theorem csp_sfp_round_trip_witness:
  "build_ok demo_build \<and> (4 :: uint32_t) \<noteq> 0 \<and> unat (4 :: uint32_t) \<le> CSP_BUFFER_SIZE demo_build - 8
   \<and> pool_hands_out demo_build (endless_pool 16)
   \<and> 0 < unat (10 :: uint32_t) \<and> unat (10 :: uint32_t) < 65536
   \<and> length demo_src = unat (10 :: uint32_t)
   \<and> reads_from demo_src (mem_read demo_src :: unit csp_sfp_read_t)
   \<and> write_returns_size mem_write
   \<and> (\<exists>ws new. csp_sfp_send demo_build (endless_pool 16) (mem_read demo_src) 10 4 demo_world
                   = Some (CSP_ERR_NONE, ws)
          \<and> tx ws = tx demo_world @ new
          \<and> (\<exists>wr1. csp_sfp_recv_fp demo_build (endless_pool 16) (traced mem_write) 100 None
                       (demo_mixed_world\<lparr>rx := new\<rparr>) = (CSP_ERR_NONE, wr1)
                 \<and> return_datasize wr1 = 10 \<and> rx wr1 = []
                 \<and> concat (map wc_data (calls_of wr1)) = demo_src))"
proof -
  have h: "(4 :: uint32_t) \<noteq> 0" "unat (4 :: uint32_t) \<le> CSP_BUFFER_SIZE demo_build - 8"
    "0 < unat (10 :: uint32_t)" "unat (10 :: uint32_t) < 65536" "length demo_src = unat (10 :: uint32_t)"
    by (simp_all add: demo_build_def demo_src_def)
  have p: "pool_hands_out demo_build (endless_pool 16)"
    using pool_hands_out_endless [of demo_build] by (simp add: demo_build_def)
  have r: "reads_from demo_src (mem_read demo_src :: unit csp_sfp_read_t)"
    by (rule reads_from_mem)
  from csp_sfp_round_trip [OF build_ok_demo h(1,2) p h(3,4,5) r write_returns_size_mem,
      where w = demo_world and buf' = "endless_pool 16" and timeout = 100]
  obtain ws new where
    1: "csp_sfp_send demo_build (endless_pool 16) (mem_read demo_src) 10 4 demo_world
          = Some (CSP_ERR_NONE, ws)"
    and 2: "tx ws = tx demo_world @ new"
    and 3: "\<forall>wr :: (uint8_t list \<times> write_call list, unit) csp_world.
              rx wr = new \<and> calls_of wr = [] \<longrightarrow>
                (\<exists>wr1. csp_sfp_recv_fp demo_build (endless_pool 16) (traced mem_write) 100 None wr
                         = (CSP_ERR_NONE, wr1)
                   \<and> return_datasize wr1 = 10 \<and> rx wr1 = []
                   \<and> writes_cover demo_src 10 0 (calls_of wr1)
                   \<and> concat (map wc_data (calls_of wr1)) = demo_src)"
    by (elim exE conjE)
  have "rx (demo_mixed_world\<lparr>rx := new\<rparr>) = new \<and> calls_of (demo_mixed_world\<lparr>rx := new\<rparr>) = []"
    by (simp add: demo_mixed_world_def calls_of_def)
  with 3 have "\<exists>wr1. csp_sfp_recv_fp demo_build (endless_pool 16) (traced mem_write) 100 None
                       (demo_mixed_world\<lparr>rx := new\<rparr>) = (CSP_ERR_NONE, wr1)
                 \<and> return_datasize wr1 = 10 \<and> rx wr1 = []
                 \<and> writes_cover demo_src 10 0 (calls_of wr1)
                 \<and> concat (map wc_data (calls_of wr1)) = demo_src"
    by (elim allE [where x = "demo_mixed_world\<lparr>rx := new\<rparr>"] impE)
  then obtain wr1 where 4: "csp_sfp_recv_fp demo_build (endless_pool 16) (traced mem_write) 100 None
                       (demo_mixed_world\<lparr>rx := new\<rparr>) = (CSP_ERR_NONE, wr1)"
      "return_datasize wr1 = 10" "rx wr1 = []" "concat (map wc_data (calls_of wr1)) = demo_src"
    by (elim exE conjE)
  have "\<exists>ws new. csp_sfp_send demo_build (endless_pool 16) (mem_read demo_src) 10 4 demo_world
                   = Some (CSP_ERR_NONE, ws)
          \<and> tx ws = tx demo_world @ new
          \<and> (\<exists>wr1. csp_sfp_recv_fp demo_build (endless_pool 16) (traced mem_write) 100 None
                       (demo_mixed_world\<lparr>rx := new\<rparr>) = (CSP_ERR_NONE, wr1)
                 \<and> return_datasize wr1 = 10 \<and> rx wr1 = []
                 \<and> concat (map wc_data (calls_of wr1)) = demo_src)"
    using 1 2 4 by (intro exI [where x = ws] exI [where x = new] exI [where x = wr1] conjI)
  with build_ok_demo h p r write_returns_size_mem show ?thesis
    by (intro conjI)
qed

text \<open>
  Claim C1 as stated fails for a total size of 0: \<^verbatim>\<open>csp_sfp_send\<close> returns
  \<^verbatim>\<open>CSP_ERR_NONE\<close> having sent nothing, and \<^verbatim>\<open>csp_sfp_recv_fp\<close> on the channel, which is
  empty, returns \<^verbatim>\<open>CSP_ERR_TIMEDOUT\<close>.
\<close>

theorem csp_sfp_round_trip_empty_times_out:
  "csp_sfp_send demo_build (endless_pool 16) (mem_read []) 0 4 demo_world
     = Some (CSP_ERR_NONE, demo_world)
   \<and> tx demo_world = [] \<and> rx demo_idle_world = []
   \<and> fst (csp_sfp_recv_fp demo_build (endless_pool 16) mem_write 100 None demo_idle_world)
       = CSP_ERR_TIMEDOUT"
  by code_simp

text \<open>
  The same round trip with a memory area as the sink: after the transfer the area holds
  the bytes of the source.
\<close>

lemma csp_sfp_round_trip_memory:
  fixes totalsize mtu :: uint32_t
  assumes "build_ok b" and "mtu \<noteq> 0" and "unat mtu \<le> CSP_BUFFER_SIZE b - 8"
    and "pool_hands_out b buf"
    and "0 < unat totalsize" and "unat totalsize < 65536"
    and "length src = unat totalsize" and "reads_from src user_read"
  shows "\<exists>ws new. csp_sfp_send b buf user_read totalsize mtu w = Some (CSP_ERR_NONE, ws)
           \<and> tx ws = tx w @ new
           \<and> (\<forall>wr. rx wr = new \<and> length (user_data wr) = unat totalsize \<longrightarrow>
                (\<exists>wr1. csp_sfp_recv_fp b buf' mem_write timeout None wr = (CSP_ERR_NONE, wr1)
                   \<and> user_data wr1 = src \<and> return_datasize wr1 = totalsize \<and> rx wr1 = []))"
proof -
  have B: "8 \<le> CSP_BUFFER_SIZE b" "CSP_BUFFER_SIZE b < 2 ^ 64"
    using assms(1) by (simp_all add: build_ok_def)
  have room: "\<not> (ucast mtu :: size_t) > sfp_room b"
    using assms(3) by (simp add: word_less_nat_alt unat_sfp_room [OF B] unat_ucast_32_64)
  have send: "csp_sfp_send b buf user_read totalsize mtu w
      = send_loop b buf user_read totalsize mtu 0 w"
    using assms(2) room by (simp add: csp_sfp_send_def)
  from send_loop_wire [OF assms(1,2,3,4,8,6,7), of 0 w] obtain ws new where
    run: "send_loop b buf user_read totalsize mtu 0 w = Some (CSP_ERR_NONE, ws)"
    and txs: "tx ws = tx w @ new"
    and wire: "wire_ok b src (unat totalsize) (unat mtu) 0 new"
    by auto
  from wire assms(5) obtain p ps where new: "new = p # ps"
    by (cases new) auto
  have m0: "0 < unat mtu" using assms(2) by (simp add: unat_gt_0)
  have recv: "\<exists>wr1. csp_sfp_recv_fp b buf' mem_write timeout None wr = (CSP_ERR_NONE, wr1)
                   \<and> user_data wr1 = src \<and> return_datasize wr1 = totalsize \<and> rx wr1 = []"
    if wr: "rx wr = new" "length (user_data wr) = unat totalsize" for wr :: "(uint8_t list, 'c) csp_world"
  proof -
    have "\<exists>wr1. recv_loop b buf' mem_write timeout 0 (of_nat 0) p (wr\<lparr>return_datasize := 0, rx := ps\<rparr>)
              = (CSP_ERR_NONE, wr1)
            \<and> user_data wr1 = src \<and> return_datasize wr1 = totalsize \<and> rx wr1 = []"
      using wire [unfolded new] wr(2)
      by (intro recv_loop_wire_mem [OF assms(1) m0 assms(3) assms(7)]) simp_all
    then show ?thesis
      using wr(1) new by (simp add: csp_sfp_recv_fp_def csp_read_def)
  qed
  have "\<forall>wr. rx wr = new \<and> length (user_data wr) = unat totalsize \<longrightarrow>
                (\<exists>wr1. csp_sfp_recv_fp b buf' mem_write timeout None wr = (CSP_ERR_NONE, wr1)
                   \<and> user_data wr1 = src \<and> return_datasize wr1 = totalsize \<and> rx wr1 = [])"
    using recv by (intro allI impI) (elim conjE)
  with run txs show ?thesis
    unfolding send by (intro exI [where x = ws] exI [where x = new] conjI)
qed

end
